(* ===== verification/Prelude.thy ===== *)
theory Prelude
  imports Main "HOL-Library.Word" "HOL-Library.Sublist"
begin

section \<open>Shared vocabulary of the development\<close>

text \<open>
  The Rust vocabulary every component uses: the machine integers at their width with the
  checked and saturating operations of the standard library, \<open>Result\<close> with its
  combinators, the decimal \<open>Display\<close> of integers, substring search, and
  \<open>Vec::dedup\<close>/\<open>sort_by_key\<close>. The lemma collections \<open>i64_arith\<close> (exactness of machine
  arithmetic) and \<open>result_simps\<close> (propagation of \<open>Result\<close>) carry the component proofs.
\<close>

named_theorems i64_arith
named_theorems result_simps

subsection \<open>Machine integers\<close>

type_synonym i64 = "64 word"
type_synonym i32 = "32 word"
type_synonym i16 = "16 word"
type_synonym u8 = "8 word"
type_synonym u16 = "16 word"
type_synonym u32 = "32 word"
type_synonym u64 = "64 word"

text \<open>Signed words are read by \<^const>\<open>sint\<close>; comparisons of the source are comparisons of \<^const>\<open>sint\<close>.\<close>

definition in_i64 :: "int \<Rightarrow> bool" where
  "in_i64 x \<longleftrightarrow> - (2 ^ 63) \<le> x \<and> x < 2 ^ 63"

definition in_i32 :: "int \<Rightarrow> bool" where
  "in_i32 x \<longleftrightarrow> - (2 ^ 31) \<le> x \<and> x < 2 ^ 31"

definition i64_MAX :: i64 where
  "i64_MAX = 9223372036854775807"

definition i64_MIN :: i64 where
  "i64_MIN = - 9223372036854775808"

definition i64_checked_add :: "i64 \<Rightarrow> i64 \<Rightarrow> i64 option" where
  "i64_checked_add a b = (if in_i64 (sint a + sint b) then Some (a + b) else None)"

definition i64_checked_sub :: "i64 \<Rightarrow> i64 \<Rightarrow> i64 option" where
  "i64_checked_sub a b = (if in_i64 (sint a - sint b) then Some (a - b) else None)"

definition i64_saturating_add :: "i64 \<Rightarrow> i64 \<Rightarrow> i64" where
  "i64_saturating_add a b =
     (if in_i64 (sint a + sint b) then a + b
      else if 0 < sint a + sint b then i64_MAX else i64_MIN)"

definition i64_saturating_sub :: "i64 \<Rightarrow> i64 \<Rightarrow> i64" where
  "i64_saturating_sub a b =
     (if in_i64 (sint a - sint b) then a - b
      else if 0 < sint a - sint b then i64_MAX else i64_MIN)"

lemma in_i64_sint [simp, intro]: "in_i64 (sint (a :: i64))"
  using sint_ge [of a] sint_lt [of a] by (simp add: in_i64_def)

lemma in_i32_sint [simp, intro]: "in_i32 (sint (a :: i32))"
  using sint_ge [of a] sint_lt [of a] by (simp add: in_i32_def)

lemma in_i64_0 [simp]: "in_i64 0"
  by (simp add: in_i64_def)

lemma in_i64_mono: "in_i64 l \<Longrightarrow> in_i64 u \<Longrightarrow> l \<le> x \<Longrightarrow> x \<le> u \<Longrightarrow> in_i64 x"
  by (simp add: in_i64_def)

lemma signed_take_bit_i64: "in_i64 x \<Longrightarrow> signed_take_bit 63 x = x"
  by (rule signed_take_bit_int_eq_self) (simp_all add: in_i64_def)

lemma signed_take_bit_i32: "in_i32 x \<Longrightarrow> signed_take_bit 31 x = x"
  by (rule signed_take_bit_int_eq_self) (simp_all add: in_i32_def)

lemma sint_add_exact [i64_arith]:
  "in_i64 (sint a + sint b) \<Longrightarrow> sint (a + b :: i64) = sint a + sint b"
  by (simp add: sint_word_add signed_take_bit_i64)

lemma sint_diff_exact [i64_arith]:
  "in_i64 (sint a - sint b) \<Longrightarrow> sint (a - b :: i64) = sint a - sint b"
  by (simp add: sint_word_diff signed_take_bit_i64)

lemma sint_minus_exact [i64_arith]:
  "in_i64 (- sint a) \<Longrightarrow> sint (- a :: i64) = - sint a"
  by (simp add: sint_word_minus signed_take_bit_i64)

lemma sint_add_exact_i32:
  "in_i32 (sint a + sint b) \<Longrightarrow> sint (a + b :: i32) = sint a + sint b"
  by (simp add: sint_word_add signed_take_bit_i32)

lemma sint_inj [simp]: "sint a = sint (b :: 'a::len word) \<longleftrightarrow> a = b"
  by (metis of_int_sint scast_id)

lemma sint_of_int_exact [i64_arith]: "in_i64 x \<Longrightarrow> sint (of_int x :: i64) = x"
  by (simp add: sint_sbintrunc' signed_take_bit_i64)

lemma in_i64_minus: "0 \<le> sint (a :: i64) \<Longrightarrow> in_i64 (- sint a)"
  using in_i64_sint [of a] by (simp add: in_i64_def)

lemma sint_0_iff [simp]: "sint (a :: i64) = 0 \<longleftrightarrow> a = 0"
  using sint_inj [of a 0] by simp

lemma checked_add_eq_Some_iff:
  "i64_checked_add a b = Some c \<longleftrightarrow> in_i64 (sint a + sint b) \<and> c = a + b"
  by (auto simp: i64_checked_add_def)

lemma checked_add_Some: "i64_checked_add a b = Some c \<Longrightarrow> sint c = sint a + sint b"
  by (auto simp: checked_add_eq_Some_iff i64_arith)

lemma checked_add_eq_None_iff: "i64_checked_add a b = None \<longleftrightarrow> \<not> in_i64 (sint a + sint b)"
  by (auto simp: i64_checked_add_def)

lemma checked_sub_Some: "i64_checked_sub a b = Some c \<Longrightarrow> sint c = sint a - sint b"
  by (auto simp: i64_checked_sub_def i64_arith split: if_splits)

lemma checked_sub_eq_None_iff: "i64_checked_sub a b = None \<longleftrightarrow> \<not> in_i64 (sint a - sint b)"
  by (auto simp: i64_checked_sub_def)

lemma saturating_add_exact:
  "in_i64 (sint a + sint b) \<Longrightarrow> i64_saturating_add a b = a + b"
  by (simp add: i64_saturating_add_def)

subsection \<open>Result\<close>

datatype ('t, 'e) result = Ok 't | Err 'e

text \<open>The \<open>?\<close> operator between two computations with the same error type.\<close>

fun and_then :: "('a, 'e) result \<Rightarrow> ('a \<Rightarrow> ('b, 'e) result) \<Rightarrow> ('b, 'e) result" where
  "and_then (Ok x) k = k x"
| "and_then (Err e) k = Err e"

fun map_err :: "('e \<Rightarrow> 'f) \<Rightarrow> ('a, 'e) result \<Rightarrow> ('a, 'f) result" where
  "map_err f (Ok x) = Ok x"
| "map_err f (Err e) = Err (f e)"

fun ok_or :: "'a option \<Rightarrow> 'e \<Rightarrow> ('a, 'e) result" where
  "ok_or (Some x) e = Ok x"
| "ok_or None e = Err e"

fun is_ok :: "('a, 'e) result \<Rightarrow> bool" where
  "is_ok (Ok x) \<longleftrightarrow> True"
| "is_ok (Err e) \<longleftrightarrow> False"

text \<open>A loop that fills a vector and stops at the first error.\<close>

fun map_result :: "('a \<Rightarrow> ('b, 'e) result) \<Rightarrow> 'a list \<Rightarrow> ('b list, 'e) result" where
  "map_result f [] = Ok []"
| "map_result f (x # xs) =
     and_then (f x) (\<lambda>y. and_then (map_result f xs) (\<lambda>ys. Ok (y # ys)))"

lemma and_then_eq_Ok_iff [result_simps]:
  "and_then r k = Ok y \<longleftrightarrow> (\<exists>x. r = Ok x \<and> k x = Ok y)"
  by (cases r) auto

lemma and_then_eq_Err_iff [result_simps]:
  "and_then r k = Err e \<longleftrightarrow> r = Err e \<or> (\<exists>x. r = Ok x \<and> k x = Err e)"
  by (cases r) auto

lemma map_err_eq_Ok_iff [result_simps]: "map_err f r = Ok x \<longleftrightarrow> r = Ok x"
  by (cases r) auto

lemma Ok_eq_map_err_iff [result_simps]: "Ok x = map_err f r \<longleftrightarrow> r = Ok x"
  by (cases r) auto

lemma map_err_eq_Err_iff [result_simps]: "map_err f r = Err e \<longleftrightarrow> (\<exists>d. r = Err d \<and> e = f d)"
  by (cases r) auto

lemma ok_or_eq_Ok_iff [result_simps]: "ok_or v e = Ok x \<longleftrightarrow> v = Some x"
  by (cases v) auto

lemma ok_or_eq_Err_iff [result_simps]: "ok_or v e = Err d \<longleftrightarrow> v = None \<and> d = e"
  by (cases v) auto

lemma map_result_eq_Ok_iff: "map_result f xs = Ok ys \<longleftrightarrow> list_all2 (\<lambda>x y. f x = Ok y) xs ys"
proof (induction xs arbitrary: ys)
  case (Cons x xs)
  then show ?case by (cases ys) (auto simp: result_simps)
qed auto

lemma map_result_total:
  "(\<And>x. x \<in> set xs \<Longrightarrow> f x = Ok (g x)) \<Longrightarrow> map_result f xs = Ok (map g xs)"
  by (induction xs) auto

subsection \<open>Encodings of enumerations\<close>

text \<open>
  The contract of the integer encodings of the enums, in the database columns and in the
  protocol messages: the decoder accepts exactly the encoder's values and inverts it.
\<close>

locale codec =
  fixes enc :: "'a \<Rightarrow> 'n::len word"
    and dec :: "'n word \<Rightarrow> ('a, 'e) result"
  assumes dec_enc: "dec (enc x) = Ok x"
    and enc_dec: "dec i = Ok x \<Longrightarrow> enc x = i"
begin

lemma dec_Ok_iff: "dec i = Ok x \<longleftrightarrow> i = enc x"
  using dec_enc enc_dec by auto

lemma inj_enc: "inj enc"
  by (metis dec_enc injI result.inject(1))

lemma dec_Err_iff: "(\<exists>e. dec i = Err e) \<longleftrightarrow> i \<notin> range enc"
  using dec_enc enc_dec by (metis rangeE range_eqI result.distinct(1) result.exhaust)

end

subsection \<open>Display of integers\<close>

definition show_digit :: "nat \<Rightarrow> char" where
  "show_digit d = ''0123456789'' ! d"

fun show_nat :: "nat \<Rightarrow> string" where
  "show_nat n = (if n < 10 then [show_digit n] else show_nat (n div 10) @ [show_digit (n mod 10)])"

declare show_nat.simps [simp del]

definition show_int :: "int \<Rightarrow> string" where
  "show_int x = (if x < 0 then CHR ''-'' # show_nat (nat (- x)) else show_nat (nat x))"

definition show_i64 :: "i64 \<Rightarrow> string" where
  "show_i64 w = show_int (sint w)"

subsection \<open>Strings: \<open>str::find\<close>\<close>

text \<open>The index of the first occurrence of a pattern, as \<open>str::find\<close> returns it.\<close>

fun find_str :: "string \<Rightarrow> string \<Rightarrow> nat option" where
  "find_str pat s =
     (if prefix pat s then Some 0
      else case s of [] \<Rightarrow> None | _ # s' \<Rightarrow> map_option Suc (find_str pat s'))"

declare find_str.simps [simp del]

lemma find_str_Nil: "find_str pat [] = (if pat = [] then Some 0 else None)"
  by (subst find_str.simps) simp

lemma find_str_Cons:
  "find_str pat (c # s) = (if prefix pat (c # s) then Some 0 else map_option Suc (find_str pat s))"
  by (subst find_str.simps) simp

lemma find_str_append:
  assumes "\<And>n. n < length u \<Longrightarrow> \<not> prefix pat (drop n (u @ pat @ v))"
  shows "find_str pat (u @ pat @ v) = Some (length u)"
  using assms
proof (induction u)
  case Nil
  show ?case by (subst find_str.simps) simp
next
  case (Cons c u)
  have "\<not> prefix pat (c # u @ pat @ v)" using Cons.prems [of 0] by simp
  moreover have "find_str pat (u @ pat @ v) = Some (length u)"
    using Cons.prems [of "Suc n" for n] by (intro Cons.IH) auto
  ultimately show ?case by (simp add: find_str_Cons)
qed

text \<open>A pattern is found at the end of a prefix that avoids its first character.\<close>

lemma find_str_fresh:
  assumes "c \<notin> set u"
  shows "find_str (c # cs) (u @ (c # cs) @ v) = Some (length u)"
proof (rule find_str_append)
  fix n assume "n < length u"
  show "\<not> prefix (c # cs) (drop n (u @ (c # cs) @ v))"
  proof
    assume p: "prefix (c # cs) (drop n (u @ (c # cs) @ v))"
    from \<open>n < length u\<close> obtain d w where d: "drop n u = d # w" by (cases "drop n u") auto
    with p \<open>n < length u\<close> have "c = d" by simp
    with d have "c \<in> set (drop n u)" by simp
    with assms show False by (auto dest: in_set_dropD)
  qed
qed

lemma find_char_append: "c \<notin> set u \<Longrightarrow> find_str [c] (u @ c # v) = Some (length u)"
  using find_str_fresh [of c u "[]" v] by simp

lemma find_char_None_iff: "find_str [c] s = None \<longleftrightarrow> c \<notin> set s"
  by (induction s) (auto simp: find_str_Nil find_str_Cons)

subsection \<open>Vectors\<close>

text \<open>
  \<open>sort_by_key\<close> is the stable \<^const>\<open>sort_key\<close>, \<open>dedup\<close> drops consecutive duplicates.
\<close>

lemma strict_sorted_remdups_adj:
  "sorted xs \<Longrightarrow> sorted_wrt (<) (remdups_adj (xs :: 'a::linorder list))"
  by (induction xs rule: remdups_adj.induct) (auto simp: order.strict_iff_order)

lemma strict_sorted_remdups_adj_key:
  assumes "inj f"
  shows "sorted_wrt (<) (map f (remdups_adj (sort_key f xs)))"
proof -
  have "map f (remdups_adj (sort_key f xs)) = remdups_adj (map f (sort_key f xs))"
    using assms by (simp add: remdups_adj_map_injective)
  then show ?thesis by (simp add: strict_sorted_remdups_adj)
qed

lemma distinct_map_eq: "distinct (map f xs) \<Longrightarrow> x \<in> set xs \<Longrightarrow> y \<in> set xs \<Longrightarrow> f x = f y \<Longrightarrow> x = y"
  by (simp add: distinct_map inj_on_def)

lemma find_SomeD: "find P xs = Some x \<Longrightarrow> x \<in> set xs \<and> P x"
  by (auto simp: find_Some_iff)

lemma sum_list_map_filter_split:
  "sum_list (map f (filter P xs)) + sum_list (map f (filter (\<lambda>x. \<not> P x) xs))
     = (sum_list (map f xs) :: int)"
  by (induction xs) auto

lemma sum_list_filter_cond:
  "sum_list (map f (filter P xs)) = sum_list (map (\<lambda>x. if P x then f x else 0) xs)"
  by (induction xs) auto

lemma sum_list_at:
  "distinct ks \<Longrightarrow> j \<in> set ks \<Longrightarrow>
   sum_list (map (\<lambda>k. g k + (if j = k then c else 0)) ks) = sum_list (map g ks) + (c :: int)"
proof (induction ks)
  case (Cons k ks)
  show ?case
  proof (cases "j = k")
    case True
    with Cons.prems have "map (\<lambda>k. g k + (if j = k then c else 0)) ks = map g ks" by auto
    then show ?thesis by (simp only: list.map sum_list.Cons True) simp
  qed (use Cons in simp)
qed simp

text \<open>A sum grouped by a key.\<close>

lemma sum_list_by_key:
  assumes "distinct ks" and "\<And>x. x \<in> set xs \<Longrightarrow> key x \<in> set ks"
  shows "(sum_list (map f xs) :: int) = sum_list (map (\<lambda>k. sum_list (map f (filter (\<lambda>x. key x = k) xs))) ks)"
  using assms(2)
proof (induction xs)
  case (Cons x xs)
  have "sum_list (map (\<lambda>k. sum_list (map f (filter (\<lambda>x. key x = k) (x # xs)))) ks)
      = sum_list (map (\<lambda>k. sum_list (map f (filter (\<lambda>x. key x = k) xs)) + (if key x = k then f x else 0)) ks)"
    by (rule arg_cong [where f = sum_list]) auto
  also have "\<dots> = f x + sum_list (map f xs)"
    using Cons sum_list_at [OF assms(1), of "key x"] by simp
  finally show ?case by simp
qed simp

lemma sum_list_nonneg_int: "(\<And>x. x \<in> set xs \<Longrightarrow> 0 \<le> f x) \<Longrightarrow> 0 \<le> (sum_list (map f xs) :: int)"
  by (induction xs) auto

end
