(* ===== verification/Prog.thy ===== *)
theory Prog
  imports Prelude
begin

section \<open>Asynchronous code as step-wise programs\<close>

text \<open>
  The server's handlers are \<open>async fn\<close>s: they run in pieces, each piece atomic with respect
  to the shared state, and may be interleaved between pieces. A program is either finished
  or one atomic step followed by the rest; a step carries the list of row locks the
  database takes for it. \<open>prun\<close> is the execution of one program on its own; \<open>triple\<close> is
  the Hoare triple over \<open>prun\<close>, with one postcondition for \<open>Ok\<close> and one for \<open>Err\<close>.
\<close>

datatype ('l, 's, 'a) prog = Done 'a | Step 'l "'s \<Rightarrow> 's \<times> ('l, 's, 'a) prog"

primrec pbind :: "('l, 's, 'a) prog \<Rightarrow> ('a \<Rightarrow> ('l, 's, 'b) prog) \<Rightarrow> ('l, 's, 'b) prog" where
  "pbind (Done a) k = k a"
| "pbind (Step l f) k = Step l (\<lambda>s. map_prod id (\<lambda>p. pbind p k) (f s))"

primrec prun :: "('l, 's, 'a) prog \<Rightarrow> 's \<Rightarrow> 'a \<times> 's" where
  "prun (Done a) = Pair a"
| "prun (Step l f) = (\<lambda>s. (\<lambda>(t, g). g t) (map_prod id prun (f s)))"

text \<open>One atomic step that computes a value from the state and updates it.\<close>

definition atomic :: "'l \<Rightarrow> ('s \<Rightarrow> 'a \<times> 's) \<Rightarrow> ('l, 's, 'a) prog" where
  "atomic l f = Step l (\<lambda>s. case f s of (a, t) \<Rightarrow> (t, Done a))"

text \<open>\<open>m.await?\<close>: run the program and continue with its value, or return its error.\<close>

definition await ::
    "('l, 's, ('a, 'e) result) prog \<Rightarrow> ('a \<Rightarrow> ('l, 's, ('b, 'e) result) prog)
      \<Rightarrow> ('l, 's, ('b, 'e) result) prog" where
  "await m k = pbind m (\<lambda>r. case r of Ok x \<Rightarrow> k x | Err e \<Rightarrow> Done (Err e))"

text \<open>\<open>r?\<close> for a value that needs no waiting.\<close>

definition attempt ::
    "('a, 'e) result \<Rightarrow> ('a \<Rightarrow> ('l, 's, ('b, 'e) result) prog) \<Rightarrow> ('l, 's, ('b, 'e) result) prog" where
  "attempt r k = (case r of Ok x \<Rightarrow> k x | Err e \<Rightarrow> Done (Err e))"

definition pmap :: "('a \<Rightarrow> 'b) \<Rightarrow> ('l, 's, 'a) prog \<Rightarrow> ('l, 's, 'b) prog" where
  "pmap g m = pbind m (\<lambda>a. Done (g a))"

subsection \<open>Execution of composed programs\<close>

lemma prun_Step: "prun (Step l f) s = (case f s of (t, p) \<Rightarrow> prun p t)"
  by (simp split: prod.split)

declare prun.simps(2) [simp del]

lemma prun_pbind: "prun (pbind p k) s = (case prun p s of (a, t) \<Rightarrow> prun (k a) t)"
proof (induction p arbitrary: s)
  case (Done x)
  show ?case by simp
next
  case (Step l f)
  obtain t p where fs: "f s = (t, p)" by force
  then have "(t, p) \<in> range f" by (metis rangeI)
  then have "prun (pbind p k) t = (case prun p t of (a, u) \<Rightarrow> prun (k a) u)"
    by (rule Step) simp
  with fs show ?case by (simp add: prun_Step)
qed

lemma prun_atomic [simp]: "prun (atomic l f) s = f s"
  by (simp add: atomic_def prun_Step split: prod.split)

lemma prun_pmap [simp]: "prun (pmap g m) s = map_prod g id (prun m s)"
  by (simp add: pmap_def prun_pbind split: prod.split)

lemma prun_await:
  "prun (await m k) s =
     (case prun m s of (Ok x, t) \<Rightarrow> prun (k x) t | (Err e, t) \<Rightarrow> (Err e, t))"
  by (simp add: await_def prun_pbind split: prod.split result.split)

lemma prun_attempt:
  "prun (attempt r k) s = (case r of Ok x \<Rightarrow> prun (k x) s | Err e \<Rightarrow> (Err e, s))"
  by (simp add: attempt_def split: result.split)

lemma attempt_Ok [simp]: "attempt (Ok x) k = k x"
  by (simp add: attempt_def)

lemma attempt_Err [simp]: "attempt (Err e) k = Done (Err e)"
  by (simp add: attempt_def)

subsection \<open>Hoare triples\<close>

definition triple ::
    "('s \<Rightarrow> bool) \<Rightarrow> ('l, 's, ('a, 'e) result) prog \<Rightarrow> ('a \<Rightarrow> 's \<Rightarrow> bool) \<Rightarrow> ('e \<Rightarrow> 's \<Rightarrow> bool) \<Rightarrow> bool" where
  "triple P m Q E \<longleftrightarrow>
     (\<forall>s. P s \<longrightarrow> (case prun m s of (Ok x, t) \<Rightarrow> Q x t | (Err e, t) \<Rightarrow> E e t))"

lemma tripleI:
  "(\<And>s x t. P s \<Longrightarrow> prun m s = (Ok x, t) \<Longrightarrow> Q x t) \<Longrightarrow>
   (\<And>s e t. P s \<Longrightarrow> prun m s = (Err e, t) \<Longrightarrow> E e t) \<Longrightarrow> triple P m Q E"
  by (auto simp: triple_def split: prod.split result.split)

lemma triple_OkD: "triple P m Q E \<Longrightarrow> P s \<Longrightarrow> prun m s = (Ok x, t) \<Longrightarrow> Q x t"
  by (fastforce simp: triple_def)

lemma triple_ErrD: "triple P m Q E \<Longrightarrow> P s \<Longrightarrow> prun m s = (Err e, t) \<Longrightarrow> E e t"
  by (fastforce simp: triple_def)

lemma triple_await:
  assumes "triple P m R E" and "\<And>x. triple (R x) (k x) Q E"
  shows "triple P (await m k) Q E"
proof (rule tripleI)
  fix s y u assume "P s" and run: "prun (await m k) s = (Ok y, u)"
  from run obtain x t where "prun m s = (Ok x, t)" and k: "prun (k x) t = (Ok y, u)"
    by (auto simp: prun_await split: prod.splits result.splits)
  then have "R x t" using assms(1) \<open>P s\<close> by (blast dest: triple_OkD)
  then show "Q y u" using assms(2) k by (blast dest: triple_OkD)
next
  fix s e u assume "P s" and run: "prun (await m k) s = (Err e, u)"
  then consider "prun m s = (Err e, u)"
    | x t where "prun m s = (Ok x, t)" "prun (k x) t = (Err e, u)"
    by (auto simp: prun_await split: prod.splits result.splits)
  then show "E e u"
    using assms \<open>P s\<close> by cases (blast dest: triple_OkD triple_ErrD)+
qed

lemma triple_attempt:
  assumes "\<And>x. r = Ok x \<Longrightarrow> triple P (k x) Q E" and "\<And>s e. P s \<Longrightarrow> r = Err e \<Longrightarrow> E e s"
  shows "triple P (attempt r k) Q E"
  using assms by (cases r) (auto simp: triple_def)

lemma triple_Done_Ok: "(\<And>s. P s \<Longrightarrow> Q x s) \<Longrightarrow> triple P (Done (Ok x)) Q E"
  by (simp add: triple_def)

lemma triple_Done_Err: "(\<And>s. P s \<Longrightarrow> E e s) \<Longrightarrow> triple P (Done (Err e)) Q E"
  by (simp add: triple_def)

lemma triple_if:
  "(b \<Longrightarrow> triple P m Q E) \<Longrightarrow> (\<not> b \<Longrightarrow> triple P n Q E) \<Longrightarrow> triple P (if b then m else n) Q E"
  by simp

lemma triple_weaken:
  "triple P m Q E \<Longrightarrow> (\<And>s. P' s \<Longrightarrow> P s) \<Longrightarrow> (\<And>x t. Q x t \<Longrightarrow> Q' x t) \<Longrightarrow>
   (\<And>e t. E e t \<Longrightarrow> E' e t) \<Longrightarrow> triple P' m Q' E'"
  by (fastforce simp: triple_def split: prod.splits result.splits)

lemma triple_pre_pure: "(b \<Longrightarrow> triple P m Q E) \<Longrightarrow> triple (\<lambda>s. b \<and> P s) m Q E"
  by (auto simp: triple_def)

lemma triple_atomic:
  "(\<And>s x t. P s \<Longrightarrow> f s = (Ok x, t) \<Longrightarrow> Q x t) \<Longrightarrow>
   (\<And>s e t. P s \<Longrightarrow> f s = (Err e, t) \<Longrightarrow> E e t) \<Longrightarrow> triple P (atomic l f) Q E"
  by (rule tripleI) auto

lemma triple_pmap_map_err:
  assumes "triple P m Q (\<lambda>e. E (g e))"
  shows "triple P (pmap (map_err g) m) Q E"
proof (rule tripleI)
  fix s x t assume "P s" and "prun (pmap (map_err g) m) s = (Ok x, t)"
  then have "prun m s = (Ok x, t)" by (cases "prun m s") (auto simp: result_simps)
  then show "Q x t" using assms \<open>P s\<close> by (blast dest: triple_OkD)
next
  fix s e t assume "P s" and "prun (pmap (map_err g) m) s = (Err e, t)"
  then obtain d where "prun m s = (Err d, t)" and "e = g d"
    by (cases "prun m s") (auto simp: result_simps)
  then show "E e t" using assms \<open>P s\<close> by (blast dest: triple_ErrD)
qed

end
