(* ===== verification/Money.thy ===== *)
theory Money
  imports Prelude
begin

section \<open>Amounts (\<open>domain/money.rs\<close>)\<close>

text \<open>
  \<open>Amount\<close> wraps an \<open>i64\<close> that callers keep non-negative; its arithmetic is checked.
  The theory holds the type, its constructors, \<open>checked_add\<close>, \<open>checked_sub\<close> and the
  display of values and errors, and shows that the operations keep the type invariant
  \<open>amount_ok\<close>, are exact, and fail exactly on overflow and underflow.
\<close>

datatype Amount = Amount (amount_value: i64)

datatype AmountError = Negative i64 | Overflow | Underflow

definition Amount_new :: "i64 \<Rightarrow> (Amount, AmountError) result" where
  "Amount_new v = (if sint v < 0 then Err (Negative v) else Ok (Amount v))"

definition Amount_from_raw :: "i64 \<Rightarrow> Amount" where
  "Amount_from_raw v = Amount v"

definition Amount_zero :: Amount where
  "Amount_zero = Amount 0"

definition Amount_checked_add :: "Amount \<Rightarrow> Amount \<Rightarrow> (Amount, AmountError) result" where
  "Amount_checked_add a b =
     ok_or (map_option Amount (i64_checked_add (amount_value a) (amount_value b))) Overflow"

definition Amount_checked_sub :: "Amount \<Rightarrow> Amount \<Rightarrow> (Amount, AmountError) result" where
  "Amount_checked_sub a b =
     ok_or
       (map_option Amount
         (case i64_checked_sub (amount_value a) (amount_value b) of
            None \<Rightarrow> None
          | Some v \<Rightarrow> if 0 \<le> sint v then Some v else None))
       Underflow"

fun AmountError_message :: "AmountError \<Rightarrow> string" where
  "AmountError_message (Negative v) = ''amount cannot be negative''"
| "AmountError_message Overflow = ''amount overflow''"
| "AmountError_message Underflow = ''amount underflow (would be negative)''"

definition Amount_to_string :: "Amount \<Rightarrow> string" where
  "Amount_to_string a = show_i64 (amount_value a)"

fun AmountError_to_string :: "AmountError \<Rightarrow> string" where
  "AmountError_to_string (Negative v) =
     AmountError_message (Negative v) @ '': '' @ show_i64 v"
| "AmountError_to_string e = AmountError_message e"

subsection \<open>The type invariant\<close>

definition amount_ok :: "Amount \<Rightarrow> bool" where
  "amount_ok a \<longleftrightarrow> 0 \<le> sint (amount_value a)"

lemma Amount_new_Ok_iff [result_simps]:
  "Amount_new v = Ok a \<longleftrightarrow> a = Amount v \<and> 0 \<le> sint v"
  by (auto simp: Amount_new_def)

lemma Amount_new_ok: "Amount_new v = Ok a \<Longrightarrow> amount_ok a"
  by (simp add: Amount_new_Ok_iff amount_ok_def)

lemma Amount_add_in_range:
  assumes "amount_ok a" "amount_ok b"
  shows "in_i64 (sint (amount_value a) + sint (amount_value b))
     \<longleftrightarrow> sint (amount_value a) + sint (amount_value b) < 2 ^ 63"
  using assms by (simp add: amount_ok_def in_i64_def)

lemma Amount_sub_in_range:
  assumes "amount_ok a" "amount_ok b"
  shows "in_i64 (sint (amount_value a) - sint (amount_value b))"
  using assms in_i64_sint [of "amount_value a"] in_i64_sint [of "amount_value b"]
  by (simp add: amount_ok_def in_i64_def)

text \<open>
  C27. \<open>Amount::checked_add\<close> on valid amounts: it succeeds exactly when the mathematical sum
  fits an \<open>i64\<close>, and then the result is that sum and again a valid amount; otherwise it
  reports \<open>Overflow\<close>. No wrap-around is ever returned.
\<close>

theorem Amount_checked_add_exact:
  assumes "amount_ok a" and "amount_ok b"
  shows "(case Amount_checked_add a b of
            Ok c \<Rightarrow> sint (amount_value c) = sint (amount_value a) + sint (amount_value b)
                   \<and> amount_ok c
          | Err e \<Rightarrow> e = Overflow \<and> 2 ^ 63 \<le> sint (amount_value a) + sint (amount_value b))"
proof (cases "in_i64 (sint (amount_value a) + sint (amount_value b))")
  case True
  then have "sint (amount_value a + amount_value b) = sint (amount_value a) + sint (amount_value b)"
    by (rule sint_add_exact)
  with True assms show ?thesis
    by (simp add: Amount_checked_add_def i64_checked_add_def amount_ok_def)
next
  case False
  with assms show ?thesis
    by (simp add: Amount_checked_add_def i64_checked_add_def Amount_add_in_range)
qed

theorem Amount_checked_add_exact_witness:
  "amount_ok (Amount 100) \<and> amount_ok (Amount 50) \<and>
   (case Amount_checked_add (Amount 100) (Amount 50) of
      Ok c \<Rightarrow> sint (amount_value c) = 100 + 50 \<and> amount_ok c
    | Err e \<Rightarrow> e = Overflow \<and> 2 ^ 63 \<le> (100 + 50 :: int))"
  using Amount_checked_add_exact [of "Amount 100" "Amount 50"]
  by (simp add: amount_ok_def split: result.splits)

text \<open>
  \<open>Amount::checked_sub\<close> undoes \<open>checked_add\<close>, and on valid amounts it fails, with
  \<open>Underflow\<close>, exactly when the result would be negative.
\<close>

theorem Amount_checked_sub_correct:
  assumes "amount_ok a" and "amount_ok b"
  shows "(Amount_checked_add a b = Ok c \<longrightarrow> Amount_checked_sub c b = Ok a)
     \<and> Amount_checked_sub a b
         = (if sint (amount_value b) \<le> sint (amount_value a)
            then Ok (Amount (amount_value a - amount_value b)) else Err Underflow)"
proof
  have diff: "sint (amount_value a - amount_value b) = sint (amount_value a) - sint (amount_value b)"
    by (rule sint_diff_exact) (rule Amount_sub_in_range [OF assms])
  show "Amount_checked_sub a b
         = (if sint (amount_value b) \<le> sint (amount_value a)
            then Ok (Amount (amount_value a - amount_value b)) else Err Underflow)"
    by (simp add: Amount_checked_sub_def i64_checked_sub_def Amount_sub_in_range [OF assms] diff)
  show "Amount_checked_add a b = Ok c \<longrightarrow> Amount_checked_sub c b = Ok a"
  proof
    assume "Amount_checked_add a b = Ok c"
    then have c: "c = Amount (amount_value a + amount_value b)"
      and "in_i64 (sint (amount_value a) + sint (amount_value b))"
      by (auto simp: Amount_checked_add_def result_simps checked_add_eq_Some_iff)
    then have "sint (amount_value c) = sint (amount_value a) + sint (amount_value b)"
      by (simp add: sint_add_exact)
    with c assms(1) show "Amount_checked_sub c b = Ok a"
      by (simp add: Amount_checked_sub_def i64_checked_sub_def amount_ok_def)
  qed
qed

theorem Amount_checked_sub_correct_witness:
  "amount_ok (Amount 100) \<and> amount_ok (Amount 30) \<and>
   Amount_checked_sub (Amount 130) (Amount 30) = Ok (Amount 100) \<and>
   Amount_checked_sub (Amount 100) (Amount 30) = Ok (Amount 70)"
  using Amount_checked_sub_correct [of "Amount 100" "Amount 30" "Amount 130"]
  by (simp add: amount_ok_def Amount_checked_add_def i64_checked_add_def in_i64_def)

end
