(* ===== verification/Account.thy ===== *)
theory Account
  imports Prelude
begin

section \<open>Accounts (\<open>domain/account.rs\<close>)\<close>

text \<open>
  Account identifiers, the five account categories with their normal balance, and the
  validated \<open>Account\<close>. The shared contract of the three identifier newtypes of the
  domain (\<open>AccountId\<close>, \<open>EntryId\<close>, \<open>TransactionId\<close>) is the locale \<open>positive_id\<close>, which
  each of them interprets in its own theory.
\<close>

locale positive_id =
  fixes new :: "i64 \<Rightarrow> ('id, 'err) result"
    and from_raw :: "i64 \<Rightarrow> 'id"
    and val_of :: "'id \<Rightarrow> i64"
    and invalid :: "i64 \<Rightarrow> 'err"
  assumes new_def: "new v = (if sint v \<le> 0 then Err (invalid v) else Ok (from_raw v))"
    and val_of_from_raw: "val_of (from_raw v) = v"
    and from_raw_val_of: "from_raw (val_of i) = i"
begin

lemma new_Ok_iff: "new v = Ok i \<longleftrightarrow> 0 < sint v \<and> val_of i = v"
  using val_of_from_raw from_raw_val_of by (auto simp: new_def)

lemma new_Err_iff: "new v = Err e \<longleftrightarrow> sint v \<le> 0 \<and> e = invalid v"
  by (auto simp: new_def)

lemma inj_val_of: "inj val_of"
  by (metis from_raw_val_of injI)

end

datatype AccountId = AccountId (account_id_value: i64)

datatype AccountType = Asset | Liability | Equity | Revenue | Expense

datatype NormalBalance = NB_Debit | NB_Credit

record Account =
  a_id :: AccountId
  a_account_type :: AccountType
  a_asset_code :: string
  a_asset_scale :: u8
  a_version :: i64
  a_created_at :: i64

datatype AccountError =
    AccountError_InvalidId i64
  | EmptyAssetCode
  | InvalidScale u8
  | InvalidVersion i64
  | AccountError_InvalidTimestamp i64

definition AccountId_new :: "i64 \<Rightarrow> (AccountId, AccountError) result" where
  "AccountId_new v = (if sint v \<le> 0 then Err (AccountError_InvalidId v) else Ok (AccountId v))"

definition AccountId_from_raw :: "i64 \<Rightarrow> AccountId" where
  "AccountId_from_raw v = AccountId v"

fun normal_balance :: "AccountType \<Rightarrow> NormalBalance" where
  "normal_balance Asset = NB_Debit"
| "normal_balance Expense = NB_Debit"
| "normal_balance Liability = NB_Credit"
| "normal_balance Equity = NB_Credit"
| "normal_balance Revenue = NB_Credit"

definition Account_new ::
    "AccountId \<Rightarrow> AccountType \<Rightarrow> string \<Rightarrow> u8 \<Rightarrow> i64 \<Rightarrow> i64 \<Rightarrow> (Account, AccountError) result" where
  "Account_new aid account_type asset_code asset_scale version created_at =
     (if asset_code = [] then Err EmptyAssetCode
      else if 18 < uint asset_scale then Err (InvalidScale asset_scale)
      else if sint version < 0 then Err (InvalidVersion version)
      else if sint created_at \<le> 0 then Err (AccountError_InvalidTimestamp created_at)
      else Ok \<lparr> a_id = aid, a_account_type = account_type, a_asset_code = asset_code,
                a_asset_scale = asset_scale, a_version = version, a_created_at = created_at \<rparr>)"

definition Account_normal_balance :: "Account \<Rightarrow> NormalBalance" where
  "Account_normal_balance a = normal_balance (a_account_type a)"

definition AccountId_to_string :: "AccountId \<Rightarrow> string" where
  "AccountId_to_string i = show_i64 (account_id_value i)"

fun AccountError_to_string :: "AccountError \<Rightarrow> string" where
  "AccountError_to_string (AccountError_InvalidId i) = ''invalid account id: '' @ show_i64 i"
| "AccountError_to_string EmptyAssetCode = ''asset code cannot be empty''"
| "AccountError_to_string (InvalidScale s) =
     ''invalid scale '' @ show_int (uint s) @ '', max is 18''"
| "AccountError_to_string (InvalidVersion v) = ''invalid version: '' @ show_i64 v"
| "AccountError_to_string (AccountError_InvalidTimestamp t) = ''invalid timestamp: '' @ show_i64 t"

interpretation account_id: positive_id AccountId_new AccountId_from_raw account_id_value AccountError_InvalidId
  by unfold_locales (simp_all add: AccountId_new_def AccountId_from_raw_def)

lemma AccountId_new_eq_Ok [result_simps]: "AccountId_new v = Ok i \<longleftrightarrow> 0 < sint v \<and> i = AccountId v"
  by (cases i) (auto simp: account_id.new_Ok_iff)

subsection \<open>The type invariant\<close>

definition account_ok :: "Account \<Rightarrow> bool" where
  "account_ok a \<longleftrightarrow>
     a_asset_code a \<noteq> [] \<and> uint (a_asset_scale a) \<le> 18
     \<and> 0 \<le> sint (a_version a) \<and> 0 < sint (a_created_at a)"

lemma Account_new_Ok:
  "Account_new i t c sc v cr = Ok a \<Longrightarrow>
     a = \<lparr> a_id = i, a_account_type = t, a_asset_code = c, a_asset_scale = sc,
           a_version = v, a_created_at = cr \<rparr>"
  by (auto simp: Account_new_def split: if_splits)

lemma Account_new_eq_Ok:
  "c \<noteq> [] \<Longrightarrow> uint sc \<le> 18 \<Longrightarrow> 0 \<le> sint v \<Longrightarrow> 0 < sint cr \<Longrightarrow>
   Account_new i t c sc v cr
     = Ok \<lparr> a_id = i, a_account_type = t, a_asset_code = c, a_asset_scale = sc,
            a_version = v, a_created_at = cr \<rparr>"
  by (simp add: Account_new_def)


end
