(* ===== verification/Transaction.thy ===== *)
theory Transaction
  imports Account
begin

section \<open>Transactions (\<open>domain/transaction.rs\<close>)\<close>

text \<open>
  Transaction identifiers, the four lifecycle states, and the validated
  \<open>Transaction\<close>. The metadata is a \<open>serde_json::Value\<close>, a type of a third-party
  package: it is the type parameter \<open>'j\<close>.
\<close>

datatype TransactionId = TransactionId (transaction_id_value: i64)

datatype TransactionStatus = TS_Pending | TS_Posted | TS_Voided | TS_Failed

record 'j Transaction =
  t_id :: TransactionId
  t_idempotency_key :: string
  t_status :: TransactionStatus
  t_metadata :: 'j
  t_created_at :: i64
  t_posted_at :: i64

datatype TransactionError =
    TransactionError_InvalidId i64
  | EmptyIdempotencyKey
  | TransactionError_InvalidTimestamp i64
  | InvalidPostedAt TransactionStatus i64

definition TransactionId_new :: "i64 \<Rightarrow> (TransactionId, TransactionError) result" where
  "TransactionId_new v =
     (if sint v \<le> 0 then Err (TransactionError_InvalidId v) else Ok (TransactionId v))"

definition TransactionId_from_raw :: "i64 \<Rightarrow> TransactionId" where
  "TransactionId_from_raw v = TransactionId v"

fun is_terminal :: "TransactionStatus \<Rightarrow> bool" where
  "is_terminal TS_Posted \<longleftrightarrow> True"
| "is_terminal TS_Voided \<longleftrightarrow> True"
| "is_terminal TS_Failed \<longleftrightarrow> True"
| "is_terminal TS_Pending \<longleftrightarrow> False"

definition Transaction_new ::
    "TransactionId \<Rightarrow> string \<Rightarrow> TransactionStatus \<Rightarrow> 'j \<Rightarrow> i64 \<Rightarrow> i64
      \<Rightarrow> ('j Transaction, TransactionError) result" where
  "Transaction_new tid key status metadata created_at posted_at =
     (if key = [] then Err EmptyIdempotencyKey
      else if sint created_at \<le> 0 then Err (TransactionError_InvalidTimestamp created_at)
      else if status = TS_Posted \<and> sint posted_at \<le> 0
        then Err (InvalidPostedAt status posted_at)
      else if status \<in> {TS_Pending, TS_Voided, TS_Failed} \<and> posted_at \<noteq> 0
        then Err (InvalidPostedAt status posted_at)
      else Ok \<lparr> t_id = tid, t_idempotency_key = key, t_status = status, t_metadata = metadata,
                t_created_at = created_at, t_posted_at = posted_at \<rparr>)"

definition TransactionId_to_string :: "TransactionId \<Rightarrow> string" where
  "TransactionId_to_string i = show_i64 (transaction_id_value i)"

fun TransactionStatus_debug :: "TransactionStatus \<Rightarrow> string" where
  "TransactionStatus_debug TS_Pending = ''Pending''"
| "TransactionStatus_debug TS_Posted = ''Posted''"
| "TransactionStatus_debug TS_Voided = ''Voided''"
| "TransactionStatus_debug TS_Failed = ''Failed''"

fun TransactionError_to_string :: "TransactionError \<Rightarrow> string" where
  "TransactionError_to_string (TransactionError_InvalidId i) =
     ''invalid transaction id: '' @ show_i64 i"
| "TransactionError_to_string EmptyIdempotencyKey = ''idempotency key cannot be empty''"
| "TransactionError_to_string (TransactionError_InvalidTimestamp t) =
     ''invalid timestamp: '' @ show_i64 t"
| "TransactionError_to_string (InvalidPostedAt status posted_at) =
     ''invalid posted_at '' @ show_i64 posted_at @ '' for status '' @ TransactionStatus_debug status"

interpretation transaction_id: positive_id
  TransactionId_new TransactionId_from_raw transaction_id_value TransactionError_InvalidId
  by unfold_locales (simp_all add: TransactionId_new_def TransactionId_from_raw_def)

lemma TransactionId_new_eq_Ok [result_simps]:
  "TransactionId_new v = Ok i \<longleftrightarrow> 0 < sint v \<and> i = TransactionId v"
  by (cases i) (auto simp: transaction_id.new_Ok_iff)

subsection \<open>The type invariant\<close>

definition transaction_ok :: "'j Transaction \<Rightarrow> bool" where
  "transaction_ok t \<longleftrightarrow>
     t_idempotency_key t \<noteq> [] \<and> 0 < sint (t_created_at t)
     \<and> 0 \<le> sint (t_posted_at t)
     \<and> (0 < sint (t_posted_at t) \<longleftrightarrow> t_status t = TS_Posted)"

lemma Transaction_new_Ok:
  "Transaction_new i k st m cr p = Ok t \<Longrightarrow>
     t = \<lparr> t_id = i, t_idempotency_key = k, t_status = st, t_metadata = m,
           t_created_at = cr, t_posted_at = p \<rparr>"
  by (auto simp: Transaction_new_def split: if_splits)

lemma Transaction_new_pending:
  "k \<noteq> [] \<Longrightarrow> 0 < sint cr \<Longrightarrow>
   Transaction_new i k TS_Pending m cr 0
     = Ok \<lparr> t_id = i, t_idempotency_key = k, t_status = TS_Pending, t_metadata = m,
            t_created_at = cr, t_posted_at = 0 \<rparr>"
  by (simp add: Transaction_new_def)

lemma sint_pos_iff: "0 \<le> sint (w :: i64) \<Longrightarrow> 0 < sint w \<longleftrightarrow> w \<noteq> 0"
  using sint_0_iff [of w] by linarith

lemma Transaction_new_complete:
  assumes "transaction_ok \<lparr> t_id = i, t_idempotency_key = k, t_status = st, t_metadata = m,
                          t_created_at = cr, t_posted_at = p \<rparr>"
  shows "Transaction_new i k st m cr p = Ok \<lparr> t_id = i, t_idempotency_key = k, t_status = st,
                          t_metadata = m, t_created_at = cr, t_posted_at = p \<rparr>"
  using assms by (cases st) (auto simp: Transaction_new_def transaction_ok_def sint_pos_iff)


end
