(* ===== verification/Entry.thy ===== *)
theory Entry
  imports Money Account Transaction
begin

section \<open>Entries (\<open>domain/entry.rs\<close>)\<close>

text \<open>
  The single legs of a transaction as stored: identifier, direction, lifecycle state and
  the validated \<open>Entry\<close>.
\<close>

datatype EntryId = EntryId (entry_id_value: i64)

datatype EntryType = ET_Debit | ET_Credit

datatype EntryStatus = ES_Pending | ES_Posted | ES_Voided

record Entry =
  e_id :: EntryId
  e_transaction_id :: TransactionId
  e_account_id :: AccountId
  e_entry_type :: EntryType
  e_amount :: Amount
  e_status :: EntryStatus
  e_created_at :: i64

datatype EntryError =
    EntryError_InvalidId i64
  | EntryError_InvalidTimestamp i64
  | EntryError_ZeroAmount

definition EntryId_new :: "i64 \<Rightarrow> (EntryId, EntryError) result" where
  "EntryId_new v = (if sint v \<le> 0 then Err (EntryError_InvalidId v) else Ok (EntryId v))"

definition EntryId_from_raw :: "i64 \<Rightarrow> EntryId" where
  "EntryId_from_raw v = EntryId v"

definition Entry_new ::
    "EntryId \<Rightarrow> TransactionId \<Rightarrow> AccountId \<Rightarrow> EntryType \<Rightarrow> Amount \<Rightarrow> EntryStatus \<Rightarrow> i64
      \<Rightarrow> (Entry, EntryError) result" where
  "Entry_new eid transaction_id account_id entry_type amount status created_at =
     (if amount_value amount = 0 then Err EntryError_ZeroAmount
      else if sint created_at \<le> 0 then Err (EntryError_InvalidTimestamp created_at)
      else Ok \<lparr> e_id = eid, e_transaction_id = transaction_id, e_account_id = account_id,
                e_entry_type = entry_type, e_amount = amount, e_status = status,
                e_created_at = created_at \<rparr>)"

definition EntryId_to_string :: "EntryId \<Rightarrow> string" where
  "EntryId_to_string i = show_i64 (entry_id_value i)"

fun EntryError_to_string :: "EntryError \<Rightarrow> string" where
  "EntryError_to_string (EntryError_InvalidId i) = ''invalid entry id: '' @ show_i64 i"
| "EntryError_to_string (EntryError_InvalidTimestamp t) = ''invalid timestamp: '' @ show_i64 t"
| "EntryError_to_string EntryError_ZeroAmount = ''entry amount cannot be zero''"

interpretation entry_id: positive_id EntryId_new EntryId_from_raw entry_id_value EntryError_InvalidId
  by unfold_locales (simp_all add: EntryId_new_def EntryId_from_raw_def)

lemma Entry_new_Ok:
  "Entry_new i t a ty am st cr = Ok e \<Longrightarrow>
     e = \<lparr> e_id = i, e_transaction_id = t, e_account_id = a, e_entry_type = ty, e_amount = am,
           e_status = st, e_created_at = cr \<rparr>"
  by (auto simp: Entry_new_def split: if_splits)

lemma Entry_new_eq_Ok:
  "amount_value am \<noteq> 0 \<Longrightarrow> 0 < sint cr \<Longrightarrow>
   Entry_new i t a ty am st cr
     = Ok \<lparr> e_id = i, e_transaction_id = t, e_account_id = a, e_entry_type = ty, e_amount = am,
            e_status = st, e_created_at = cr \<rparr>"
  by (simp add: Entry_new_def)

subsection \<open>The directions are enumerable\<close>

text \<open>A property of both directions can be evaluated.\<close>

instantiation EntryType :: enum
begin

definition enum_EntryType :: "EntryType list" where
  "enum_EntryType = [ET_Debit, ET_Credit]"

definition enum_all_EntryType :: "(EntryType \<Rightarrow> bool) \<Rightarrow> bool" where
  "enum_all_EntryType P \<longleftrightarrow> P ET_Debit \<and> P ET_Credit"

definition enum_ex_EntryType :: "(EntryType \<Rightarrow> bool) \<Rightarrow> bool" where
  "enum_ex_EntryType P \<longleftrightarrow> P ET_Debit \<or> P ET_Credit"

instance
proof
  show univ: "UNIV = set (enum_class.enum :: EntryType list)"
    by (auto simp: enum_EntryType_def intro: EntryType.exhaust)
  show "distinct (enum_class.enum :: EntryType list)" by (simp add: enum_EntryType_def)
  show "enum_class.enum_all P \<longleftrightarrow> Ball UNIV P" "enum_class.enum_ex P \<longleftrightarrow> Bex UNIV P" for P :: "EntryType \<Rightarrow> bool"
    unfolding univ by (simp_all add: enum_EntryType_def enum_all_EntryType_def enum_ex_EntryType_def)
qed

end

end
