(* ===== verification/Validation.thy ===== *)
theory Validation
  imports Entry "HOL-Library.Multiset"
begin

section \<open>Validation and balance computation (\<open>domain/validation.rs\<close>)\<close>

text \<open>
  Transfer legs, the double-entry check \<open>validate_transaction_balance\<close>, the balance of an
  account computed from its entries, and the signed delta of one entry. The loops of the
  source, which stop at the first overflow, are the recursive functions \<open>sum_legs\<close> and
  \<open>sum_entries\<close>; they are characterised by exact sums over the mathematical integers.
\<close>

record TransferLeg =
  l_account_id :: AccountId
  l_entry_type :: EntryType
  l_amount :: Amount

datatype TransferLegError = TransferLegError_ZeroAmount

record AccountBalance =
  b_posted :: i64
  b_pending :: i64
  b_available :: i64

datatype ValidationError =
    InsufficientLegs nat
  | ValidationError_UnbalancedTransaction i64 i64
  | SumOverflow
  | BalanceOverflow

definition TransferLeg_new ::
    "AccountId \<Rightarrow> EntryType \<Rightarrow> Amount \<Rightarrow> (TransferLeg, TransferLegError) result" where
  "TransferLeg_new account_id entry_type amount =
     (if amount_value amount = 0 then Err TransferLegError_ZeroAmount
      else Ok \<lparr> l_account_id = account_id, l_entry_type = entry_type, l_amount = amount \<rparr>)"

definition AccountBalance_from_computed :: "i64 \<Rightarrow> i64 \<Rightarrow> i64 \<Rightarrow> AccountBalance" where
  "AccountBalance_from_computed posted pending available =
     \<lparr> b_posted = posted, b_pending = pending, b_available = available \<rparr>"

definition has_available :: "AccountBalance \<Rightarrow> Amount \<Rightarrow> bool" where
  "has_available b amount \<longleftrightarrow> sint (b_available b) \<ge> sint (amount_value amount)"

text \<open>The loop over the legs, with \<open>total_debits\<close> and \<open>total_credits\<close> as accumulators.\<close>

fun sum_legs :: "TransferLeg list \<Rightarrow> i64 \<Rightarrow> i64 \<Rightarrow> (i64 \<times> i64, ValidationError) result" where
  "sum_legs [] total_debits total_credits = Ok (total_debits, total_credits)"
| "sum_legs (leg # legs) total_debits total_credits =
     (case l_entry_type leg of
        ET_Debit \<Rightarrow>
          (case i64_checked_add total_debits (amount_value (l_amount leg)) of
             None \<Rightarrow> Err SumOverflow
           | Some d \<Rightarrow> sum_legs legs d total_credits)
      | ET_Credit \<Rightarrow>
          (case i64_checked_add total_credits (amount_value (l_amount leg)) of
             None \<Rightarrow> Err SumOverflow
           | Some c \<Rightarrow> sum_legs legs total_debits c))"

definition validate_transaction_balance :: "TransferLeg list \<Rightarrow> (unit, ValidationError) result" where
  "validate_transaction_balance legs =
     (if length legs < 2 then Err (InsufficientLegs (length legs))
      else and_then (sum_legs legs 0 0) (\<lambda>(total_debits, total_credits).
        if total_debits \<noteq> total_credits
        then Err (ValidationError_UnbalancedTransaction total_debits total_credits)
        else Ok ()))"

text \<open>
  The loop over the entries; the accumulators are \<open>posted_debits\<close>, \<open>posted_credits\<close>,
  \<open>pending_debits\<close> and \<open>pending_credits\<close>. Voided entries are skipped.
\<close>

fun sum_entries ::
    "Entry list \<Rightarrow> i64 \<Rightarrow> i64 \<Rightarrow> i64 \<Rightarrow> i64 \<Rightarrow> (i64 \<times> i64 \<times> i64 \<times> i64, ValidationError) result" where
  "sum_entries [] pd pc nd nc = Ok (pd, pc, nd, nc)"
| "sum_entries (entry # entries) pd pc nd nc =
     (let amount = amount_value (e_amount entry) in
      case (e_status entry, e_entry_type entry) of
        (ES_Voided, _) \<Rightarrow> sum_entries entries pd pc nd nc
      | (ES_Posted, ET_Debit) \<Rightarrow>
          and_then (ok_or (i64_checked_add pd amount) SumOverflow)
            (\<lambda>pd'. sum_entries entries pd' pc nd nc)
      | (ES_Posted, ET_Credit) \<Rightarrow>
          and_then (ok_or (i64_checked_add pc amount) SumOverflow)
            (\<lambda>pc'. sum_entries entries pd pc' nd nc)
      | (ES_Pending, ET_Debit) \<Rightarrow>
          and_then (ok_or (i64_checked_add nd amount) SumOverflow)
            (\<lambda>nd'. sum_entries entries pd pc nd' nc)
      | (ES_Pending, ET_Credit) \<Rightarrow>
          and_then (ok_or (i64_checked_add nc amount) SumOverflow)
            (\<lambda>nc'. sum_entries entries pd pc nd nc'))"

definition compute_account_balance ::
    "NormalBalance \<Rightarrow> Entry list \<Rightarrow> (AccountBalance, ValidationError) result" where
  "compute_account_balance nb entries =
     and_then (sum_entries entries 0 0 0 0)
       (\<lambda>(posted_debits, posted_credits, pending_debits, pending_credits).
     and_then
       (case nb of
          NB_Debit \<Rightarrow>
            and_then (ok_or (i64_checked_sub posted_debits posted_credits) BalanceOverflow) (\<lambda>posted.
            and_then (ok_or (i64_checked_sub pending_debits pending_credits) BalanceOverflow) (\<lambda>pending.
            Ok (posted, pending)))
        | NB_Credit \<Rightarrow>
            and_then (ok_or (i64_checked_sub posted_credits posted_debits) BalanceOverflow) (\<lambda>posted.
            and_then (ok_or (i64_checked_sub pending_credits pending_debits) BalanceOverflow) (\<lambda>pending.
            Ok (posted, pending))))
       (\<lambda>(posted, pending).
     and_then (ok_or (i64_checked_sub posted pending) BalanceOverflow) (\<lambda>available.
     Ok (AccountBalance_from_computed posted pending available))))"

fun compute_balance_delta :: "NormalBalance \<Rightarrow> EntryType \<Rightarrow> Amount \<Rightarrow> i64" where
  "compute_balance_delta NB_Debit ET_Debit amount = amount_value amount"
| "compute_balance_delta NB_Credit ET_Credit amount = amount_value amount"
| "compute_balance_delta NB_Debit ET_Credit amount = - amount_value amount"
| "compute_balance_delta NB_Credit ET_Debit amount = - amount_value amount"

fun TransferLegError_to_string :: "TransferLegError \<Rightarrow> string" where
  "TransferLegError_to_string TransferLegError_ZeroAmount = ''transfer leg amount cannot be zero''"

fun ValidationError_to_string :: "ValidationError \<Rightarrow> string" where
  "ValidationError_to_string (InsufficientLegs n) =
     ''transaction requires at least 2 legs, got '' @ show_nat n"
| "ValidationError_to_string (ValidationError_UnbalancedTransaction d c) =
     ''unbalanced transaction: debits '' @ show_i64 d @ '' != credits '' @ show_i64 c"
| "ValidationError_to_string SumOverflow = ''amount sum overflow''"
| "ValidationError_to_string BalanceOverflow = ''balance computation overflow''"

subsection \<open>The integer specification\<close>

definition leg_ok :: "TransferLeg \<Rightarrow> bool" where
  "leg_ok l \<longleftrightarrow> 0 < sint (amount_value (l_amount l))"

definition debits :: "TransferLeg list \<Rightarrow> int" where
  "debits legs = sum_list (map (\<lambda>l. sint (amount_value (l_amount l)))
     (filter (\<lambda>l. l_entry_type l = ET_Debit) legs))"

definition credits :: "TransferLeg list \<Rightarrow> int" where
  "credits legs = sum_list (map (\<lambda>l. sint (amount_value (l_amount l)))
     (filter (\<lambda>l. l_entry_type l = ET_Credit) legs))"

definition entries_sum :: "EntryStatus \<Rightarrow> EntryType \<Rightarrow> Entry list \<Rightarrow> int" where
  "entries_sum st ty es = sum_list (map (\<lambda>e. sint (amount_value (e_amount e)))
     (filter (\<lambda>e. e_status e = st \<and> e_entry_type e = ty) es))"

text \<open>The signed effect of one entry on an account, as an integer.\<close>

fun signed_amount :: "NormalBalance \<Rightarrow> EntryType \<Rightarrow> int \<Rightarrow> int" where
  "signed_amount NB_Debit ET_Debit x = x"
| "signed_amount NB_Credit ET_Credit x = x"
| "signed_amount NB_Debit ET_Credit x = - x"
| "signed_amount NB_Credit ET_Debit x = - x"

lemma signed_amount_zero [simp]: "signed_amount nb ty 0 = 0"
  by (cases nb; cases ty) simp_all

lemma abs_signed_amount: "\<bar>signed_amount nb ty x\<bar> = \<bar>x\<bar>"
  by (cases nb; cases ty) simp_all

lemma sint_compute_balance_delta [i64_arith]:
  "0 \<le> sint (amount_value am) \<Longrightarrow>
   sint (compute_balance_delta nb ty am) = signed_amount nb ty (sint (amount_value am))"
  by (cases nb; cases ty) (simp_all add: sint_minus_exact in_i64_minus)

lemma TransferLeg_new_Ok [result_simps]:
  "TransferLeg_new i ty am = Ok l \<longleftrightarrow>
     amount_value am \<noteq> 0 \<and> l = \<lparr> l_account_id = i, l_entry_type = ty, l_amount = am \<rparr>"
  by (auto simp: TransferLeg_new_def)

lemma debits_Cons [simp]:
  "debits (l # ls) = (if l_entry_type l = ET_Debit then sint (amount_value (l_amount l)) else 0) + debits ls"
  by (simp add: debits_def)

lemma credits_Cons [simp]:
  "credits (l # ls) = (if l_entry_type l = ET_Credit then sint (amount_value (l_amount l)) else 0) + credits ls"
  by (simp add: credits_def)

lemma debits_credits_Nil [simp]: "debits [] = 0" "credits [] = 0"
  by (simp_all add: debits_def credits_def)

lemma debits_nonneg: "(\<And>l. l \<in> set ls \<Longrightarrow> leg_ok l) \<Longrightarrow> 0 \<le> debits ls"
  unfolding debits_def by (rule sum_list_nonneg_int) (fastforce simp: leg_ok_def)

lemma credits_nonneg: "(\<And>l. l \<in> set ls \<Longrightarrow> leg_ok l) \<Longrightarrow> 0 \<le> credits ls"
  unfolding credits_def by (rule sum_list_nonneg_int) (fastforce simp: leg_ok_def)

subsection \<open>The double-entry check\<close>

lemma checked_add_nonneg:
  assumes "0 \<le> sint a" "0 \<le> sint b"
  shows "i64_checked_add a b = (if sint a + sint b < 2 ^ 63 then Some (a + b) else None)"
  using assms by (simp add: i64_checked_add_def in_i64_def)

lemma sint_add_nonneg:
  "0 \<le> sint a \<Longrightarrow> 0 \<le> sint b \<Longrightarrow> sint a + sint b < 2 ^ 63 \<Longrightarrow> sint (a + b :: i64) = sint a + sint b"
  by (rule sint_add_exact) (simp add: in_i64_def)

lemma sint_i64_less: "sint (a :: i64) < 2 ^ 63"
  using in_i64_sint [of a] by (simp add: in_i64_def)

text \<open>One step of an accumulator.\<close>

lemma checked_step:
  assumes "0 \<le> sint a" and "0 < sint x"
  obtains (fits) "i64_checked_add a x = Some (a + x)" "sint (a + x) = sint a + sint x"
    | (over) "i64_checked_add a x = None" "2 ^ 63 \<le> sint a + sint x"
  using assms that by (cases "sint a + sint x < 2 ^ 63") (auto simp: checked_add_nonneg sint_add_nonneg)

lemma sum_legs_correct:
  assumes "\<And>l. l \<in> set legs \<Longrightarrow> leg_ok l" "0 \<le> sint d" "0 \<le> sint c"
  shows "sum_legs legs d c =
     (if sint d + debits legs < 2 ^ 63 \<and> sint c + credits legs < 2 ^ 63
      then Ok (of_int (sint d + debits legs), of_int (sint c + credits legs))
      else Err SumOverflow)"
  using assms
proof (induction legs arbitrary: d c)
  case Nil
  then show ?case using sint_i64_less by simp
next
  case (Cons l legs)
  have x: "0 < sint (amount_value (l_amount l))" and ok: "\<And>l. l \<in> set legs \<Longrightarrow> leg_ok l"
    using Cons.prems(1) by (simp_all add: leg_ok_def)
  have nonneg: "0 \<le> debits legs" "0 \<le> credits legs" using ok by (auto intro: debits_nonneg credits_nonneg)
  have "0 \<le> sint (case l_entry_type l of ET_Debit \<Rightarrow> d | ET_Credit \<Rightarrow> c)"
    using Cons.prems(2,3) by (simp split: EntryType.split)
  from this x show ?case
  proof (cases rule: checked_step)
    case fits
    with Cons.prems(2,3) x show ?thesis
      by (cases "l_entry_type l") (simp_all add: Cons.IH [OF ok] add.assoc)
  next
    case over
    with nonneg show ?thesis by (cases "l_entry_type l") simp_all
  qed
qed

lemma of_int_i64_inj:
  "in_i64 x \<Longrightarrow> in_i64 y \<Longrightarrow> (of_int x :: i64) = of_int y \<longleftrightarrow> x = y"
  by (metis sint_of_int_exact)

lemma validate_transaction_balance_Ok:
  assumes "\<And>l. l \<in> set legs \<Longrightarrow> leg_ok l"
  shows "validate_transaction_balance legs = Ok () \<longleftrightarrow>
     2 \<le> length legs \<and> debits legs = credits legs \<and> debits legs < 2 ^ 63"
proof -
  have "0 \<le> debits legs" "0 \<le> credits legs"
    using assms by (auto intro: debits_nonneg credits_nonneg)
  then show ?thesis
    using assms by (auto simp: validate_transaction_balance_def sum_legs_correct of_int_i64_inj in_i64_def)
qed

text \<open>
  C17. \<open>validate_transaction_balance\<close> decides exactly the double-entry condition: on legs with
  positive amounts it accepts if and only if there are at least two legs and the debits and
  the credits add up to the same total, which fits an \<open>i64\<close>. Every rejection carries the
  cause: the number of legs, an overflowing total, or the two totals that differ.
\<close>

theorem validate_transaction_balance_correct:
  assumes "\<And>l. l \<in> set legs \<Longrightarrow> leg_ok l"
  shows "validate_transaction_balance legs =
     (if length legs < 2 then Err (InsufficientLegs (length legs))
      else if 2 ^ 63 \<le> debits legs \<or> 2 ^ 63 \<le> credits legs then Err SumOverflow
      else if debits legs \<noteq> credits legs
        then Err (ValidationError_UnbalancedTransaction (of_int (debits legs)) (of_int (credits legs)))
      else Ok ())"
proof -
  have nonneg: "0 \<le> debits legs" "0 \<le> credits legs"
    using assms by (auto intro: debits_nonneg credits_nonneg)
  show ?thesis
    using nonneg assms
    by (auto simp: validate_transaction_balance_def sum_legs_correct of_int_i64_inj in_i64_def)
qed

theorem validate_transaction_balance_correct_witness:
  "validate_transaction_balance
     [\<lparr> l_account_id = AccountId 1, l_entry_type = ET_Debit, l_amount = Amount 1000 \<rparr>,
      \<lparr> l_account_id = AccountId 2, l_entry_type = ET_Credit, l_amount = Amount 600 \<rparr>,
      \<lparr> l_account_id = AccountId 3, l_entry_type = ET_Credit, l_amount = Amount 400 \<rparr>] = Ok ()"
  by (subst validate_transaction_balance_correct) (auto simp: leg_ok_def)

subsection \<open>The balance computed from entries\<close>

definition entry_ok :: "Entry \<Rightarrow> bool" where
  "entry_ok e \<longleftrightarrow> 0 < sint (amount_value (e_amount e))"

definition balance_sum :: "NormalBalance \<Rightarrow> EntryStatus \<Rightarrow> Entry list \<Rightarrow> int" where
  "balance_sum nb st es = sum_list (map (\<lambda>e. signed_amount nb (e_entry_type e) (sint (amount_value (e_amount e))))
     (filter (\<lambda>e. e_status e = st) es))"

definition sums_fit :: "Entry list \<Rightarrow> bool" where
  "sums_fit es \<longleftrightarrow>
     entries_sum ES_Posted ET_Debit es < 2 ^ 63 \<and> entries_sum ES_Posted ET_Credit es < 2 ^ 63
     \<and> entries_sum ES_Pending ET_Debit es < 2 ^ 63 \<and> entries_sum ES_Pending ET_Credit es < 2 ^ 63"

lemma entries_sum_Nil [simp]: "entries_sum st ty [] = 0"
  by (simp add: entries_sum_def)

lemma entries_sum_Cons [simp]:
  "entries_sum st ty (e # es) =
     (if e_status e = st \<and> e_entry_type e = ty then sint (amount_value (e_amount e)) else 0)
     + entries_sum st ty es"
  by (simp add: entries_sum_def)

lemma entries_sum_nonneg: "(\<And>e. e \<in> set es \<Longrightarrow> entry_ok e) \<Longrightarrow> 0 \<le> entries_sum st ty es"
  unfolding entries_sum_def by (rule sum_list_nonneg_int) (fastforce simp: entry_ok_def)

lemma balance_sum_eq:
  "balance_sum NB_Debit st es = entries_sum st ET_Debit es - entries_sum st ET_Credit es"
  "balance_sum NB_Credit st es = entries_sum st ET_Credit es - entries_sum st ET_Debit es"
proof -
  have "balance_sum NB_Debit st es = entries_sum st ET_Debit es - entries_sum st ET_Credit es"
    for es
  proof (induction es)
    case (Cons e es)
    then show ?case by (cases "e_entry_type e") (simp_all add: balance_sum_def entries_sum_def)
  qed (simp add: balance_sum_def)
  moreover have "balance_sum NB_Credit st es = entries_sum st ET_Credit es - entries_sum st ET_Debit es"
    for es
  proof (induction es)
    case (Cons e es)
    then show ?case by (cases "e_entry_type e") (simp_all add: balance_sum_def entries_sum_def)
  qed (simp add: balance_sum_def)
  ultimately show "balance_sum NB_Debit st es = entries_sum st ET_Debit es - entries_sum st ET_Credit es"
    "balance_sum NB_Credit st es = entries_sum st ET_Credit es - entries_sum st ET_Debit es" by blast+
qed

lemma sum_entries_correct:
  assumes "\<And>e. e \<in> set es \<Longrightarrow> entry_ok e"
    and "0 \<le> sint pd" "0 \<le> sint pc" "0 \<le> sint nd" "0 \<le> sint nc"
  shows "sum_entries es pd pc nd nc =
     (if sint pd + entries_sum ES_Posted ET_Debit es < 2 ^ 63
         \<and> sint pc + entries_sum ES_Posted ET_Credit es < 2 ^ 63
         \<and> sint nd + entries_sum ES_Pending ET_Debit es < 2 ^ 63
         \<and> sint nc + entries_sum ES_Pending ET_Credit es < 2 ^ 63
      then Ok (of_int (sint pd + entries_sum ES_Posted ET_Debit es),
               of_int (sint pc + entries_sum ES_Posted ET_Credit es),
               of_int (sint nd + entries_sum ES_Pending ET_Debit es),
               of_int (sint nc + entries_sum ES_Pending ET_Credit es))
      else Err SumOverflow)"
  using assms
proof (induction es arbitrary: pd pc nd nc)
  case Nil
  then show ?case using sint_i64_less by simp
next
  case (Cons e es)
  have x: "0 < sint (amount_value (e_amount e))" and ok: "\<And>e. e \<in> set es \<Longrightarrow> entry_ok e"
    using Cons.prems(1) by (simp_all add: entry_ok_def)
  have nonneg: "0 \<le> entries_sum st ty es" for st ty using ok by (auto intro: entries_sum_nonneg)
  have "0 \<le> sint (case (e_status e, e_entry_type e) of
      (ES_Posted, ET_Debit) \<Rightarrow> pd | (ES_Posted, ET_Credit) \<Rightarrow> pc | (_, ET_Debit) \<Rightarrow> nd | (_, ET_Credit) \<Rightarrow> nc)"
    using Cons.prems(2-5) by (simp split: EntryStatus.split EntryType.split)
  from this x show ?case
  proof (cases rule: checked_step)
    case fits
    with Cons.prems(2-5) x show ?thesis
      by (cases "e_status e"; cases "e_entry_type e") (simp_all add: Cons.IH [OF ok] add.assoc)
  next
    case over
    with Cons.prems(2-5) nonneg [of ES_Posted ET_Debit] nonneg [of ES_Posted ET_Credit]
      nonneg [of ES_Pending ET_Debit] nonneg [of ES_Pending ET_Credit]
    show ?thesis by (cases "e_status e"; cases "e_entry_type e") (simp_all add: Cons.IH [OF ok])
  qed
qed

lemma entries_sum_diff_in_range:
  assumes "\<And>e. e \<in> set es \<Longrightarrow> entry_ok e"
    and "entries_sum st ty es < 2 ^ 63" "entries_sum st ty' es < 2 ^ 63"
  shows "in_i64 (entries_sum st ty es - entries_sum st ty' es)"
  using assms entries_sum_nonneg [of es st ty] entries_sum_nonneg [of es st ty']
  by (simp add: in_i64_def)

lemma checked_sub_of_int:
  assumes "in_i64 x" "in_i64 y"
  shows "i64_checked_sub (of_int x) (of_int y) = (if in_i64 (x - y) then Some (of_int (x - y)) else None)"
  using assms by (simp add: i64_checked_sub_def sint_of_int_exact)

text \<open>
  C18. \<open>compute_account_balance\<close> computes the accounting balance exactly: on entries with
  positive amounts, posted and pending are the signed sums over the posted and the pending
  entries (voided entries do not count), available is posted minus pending, and an error is
  returned exactly when one of the four totals (\<open>SumOverflow\<close>) or the available balance
  (\<open>BalanceOverflow\<close>) does not fit an \<open>i64\<close>.
\<close>

theorem compute_account_balance_correct:
  assumes "\<And>e. e \<in> set es \<Longrightarrow> entry_ok e"
  shows "compute_account_balance nb es =
     (if \<not> sums_fit es then Err SumOverflow
      else if \<not> in_i64 (balance_sum nb ES_Posted es - balance_sum nb ES_Pending es)
        then Err BalanceOverflow
      else Ok \<lparr> b_posted = of_int (balance_sum nb ES_Posted es),
                b_pending = of_int (balance_sum nb ES_Pending es),
                b_available = of_int (balance_sum nb ES_Posted es - balance_sum nb ES_Pending es) \<rparr>)"
proof (cases "sums_fit es")
  case False
  then show ?thesis
    using assms by (auto simp: compute_account_balance_def sum_entries_correct sums_fit_def)
next
  case True
  have fit: "in_i64 (entries_sum st ty es)" if "st \<noteq> ES_Voided" for st ty
    using that True entries_sum_nonneg [of es st ty] assms
    by (cases st; cases ty) (auto simp: sums_fit_def in_i64_def)
  have diff: "in_i64 (entries_sum st ty es - entries_sum st ty' es)" if "st \<noteq> ES_Voided" for st ty ty'
    using that True assms
    by (intro entries_sum_diff_in_range) (cases st; cases ty; cases ty'; auto simp: sums_fit_def)+
  have sums: "sum_entries es 0 0 0 0 =
      Ok (of_int (entries_sum ES_Posted ET_Debit es), of_int (entries_sum ES_Posted ET_Credit es),
          of_int (entries_sum ES_Pending ET_Debit es), of_int (entries_sum ES_Pending ET_Credit es))"
    using True assms by (simp add: sum_entries_correct sums_fit_def)
  show ?thesis
    using True
    by (cases nb)
      (simp_all add: compute_account_balance_def sums fit diff checked_sub_of_int
         balance_sum_eq AccountBalance_from_computed_def del: of_int_diff)
qed

theorem compute_account_balance_correct_witness:
  "compute_account_balance NB_Debit
     [\<lparr> e_id = EntryId 1, e_transaction_id = TransactionId 1, e_account_id = AccountId 1,
        e_entry_type = ET_Debit, e_amount = Amount 1000, e_status = ES_Posted, e_created_at = 1 \<rparr>,
      \<lparr> e_id = EntryId 2, e_transaction_id = TransactionId 1, e_account_id = AccountId 1,
        e_entry_type = ET_Credit, e_amount = Amount 150, e_status = ES_Pending, e_created_at = 1 \<rparr>]
   = Ok \<lparr> b_posted = 1000, b_pending = - 150, b_available = 1150 \<rparr>"
  by (subst compute_account_balance_correct)
    (auto simp: entry_ok_def sums_fit_def balance_sum_def in_i64_def)

text \<open>
  The balance of an account does not depend on the order in which its entries are
  read: any permutation of the entries gives the same result, errors included.
\<close>

theorem compute_account_balance_order_independent:
  assumes "mset es = mset es'" and "\<And>e. e \<in> set es \<Longrightarrow> entry_ok e"
  shows "compute_account_balance nb es = compute_account_balance nb es'"
proof -
  have sums: "sum_list (map f (filter P es)) = sum_list (map f (filter P es'))"
    for f :: "Entry \<Rightarrow> int" and P
    using assms(1) by (metis mset_filter mset_map sum_mset_sum_list)
  have "set es = set es'" using assms(1) by (metis set_mset_mset)
  with assms(2) have "\<And>e. e \<in> set es' \<Longrightarrow> entry_ok e" by simp
  moreover have "sums_fit es = sums_fit es'" and "balance_sum nb st es = balance_sum nb st es'" for st
    by (simp_all add: sums_fit_def entries_sum_def balance_sum_def sums)
  ultimately show ?thesis
    using assms(2) by (simp add: compute_account_balance_correct)
qed

theorem compute_account_balance_order_independent_witness:
  "compute_account_balance NB_Credit
     [\<lparr> e_id = EntryId 1, e_transaction_id = TransactionId 1, e_account_id = AccountId 1,
        e_entry_type = ET_Credit, e_amount = Amount 500, e_status = ES_Posted, e_created_at = 1 \<rparr>,
      \<lparr> e_id = EntryId 2, e_transaction_id = TransactionId 1, e_account_id = AccountId 1,
        e_entry_type = ET_Credit, e_amount = Amount 100, e_status = ES_Pending, e_created_at = 1 \<rparr>]
   = compute_account_balance NB_Credit
     [\<lparr> e_id = EntryId 2, e_transaction_id = TransactionId 1, e_account_id = AccountId 1,
        e_entry_type = ET_Credit, e_amount = Amount 100, e_status = ES_Pending, e_created_at = 1 \<rparr>,
      \<lparr> e_id = EntryId 1, e_transaction_id = TransactionId 1, e_account_id = AccountId 1,
        e_entry_type = ET_Credit, e_amount = Amount 500, e_status = ES_Posted, e_created_at = 1 \<rparr>]"
  by (rule compute_account_balance_order_independent) (auto simp: entry_ok_def)

end
