(* ===== verification/Cache.thy ===== *)
theory Cache
  imports Validation "HOL-Library.AList"
begin

section \<open>The balance cache (\<open>storage/cache.rs\<close>)\<close>

text \<open>
  The in-memory mirror of the materialised balances. The \<open>DashMap\<close> is an association list
  with distinct keys; its order stands for the unspecified iteration order of the source.
  The contract of the cache is the locale \<open>balance_cache\<close>: the view of a cache as a finite
  map and the effect of every operation on it. Its client lemmas (rehydration from the
  database, batches of deltas) are proved there once and used through the interpretation
  \<open>cache\<close> on the operations of the source.
\<close>

record CachedBalance =
  cb_posted :: i64
  cb_pending :: i64

type_synonym BalanceCache = "(AccountId \<times> CachedBalance) list"

definition BalanceCache_new :: BalanceCache where
  "BalanceCache_new = []"

definition cache_set :: "BalanceCache \<Rightarrow> AccountId \<Rightarrow> i64 \<Rightarrow> i64 \<Rightarrow> BalanceCache" where
  "cache_set c account_id posted pending =
     AList.update account_id \<lparr> cb_posted = posted, cb_pending = pending \<rparr> c"

fun rehydrate :: "BalanceCache \<Rightarrow> (AccountId \<times> i64 \<times> i64) list \<Rightarrow> BalanceCache" where
  "rehydrate c [] = c"
| "rehydrate c ((account_id, posted, pending) # data) =
     rehydrate (AList.update account_id \<lparr> cb_posted = posted, cb_pending = pending \<rparr> c) data"

definition cache_get :: "BalanceCache \<Rightarrow> AccountId \<Rightarrow> AccountBalance option" where
  "cache_get c account_id =
     map_option (\<lambda>entry.
       let available = i64_saturating_sub (cb_posted entry) (cb_pending entry)
       in AccountBalance_from_computed (cb_posted entry) (cb_pending entry) available)
     (map_of c account_id)"

definition apply_delta :: "BalanceCache \<Rightarrow> AccountId \<Rightarrow> i64 \<Rightarrow> i64 \<Rightarrow> BalanceCache" where
  "apply_delta c account_id delta_posted delta_pending =
     AList.map_entry account_id (\<lambda>b.
       \<lparr> cb_posted = i64_saturating_add (cb_posted b) delta_posted,
         cb_pending = i64_saturating_add (cb_pending b) delta_pending \<rparr>) c"

definition cache_remove :: "BalanceCache \<Rightarrow> AccountId \<Rightarrow> BalanceCache" where
  "cache_remove c account_id = AList.delete account_id c"

definition cache_iter :: "BalanceCache \<Rightarrow> (AccountId \<times> i64 \<times> i64) list" where
  "cache_iter c = map (\<lambda>(k, v). (k, cb_posted v, cb_pending v)) c"

definition cache_len :: "BalanceCache \<Rightarrow> nat" where
  "cache_len c = length c"

definition cache_is_empty :: "BalanceCache \<Rightarrow> bool" where
  "cache_is_empty c \<longleftrightarrow> cache_len c = 0"

text \<open>A batch of deltas, applied one after the other.\<close>

fun apply_deltas :: "BalanceCache \<Rightarrow> (AccountId \<times> i64 \<times> i64) list \<Rightarrow> BalanceCache" where
  "apply_deltas c [] = c"
| "apply_deltas c ((account_id, dp, dq) # us) = apply_deltas (apply_delta c account_id dp dq) us"

subsection \<open>The contract\<close>

text \<open>The abstract value of a cache: the posted and pending balance of each cached account.\<close>

definition cache_map :: "BalanceCache \<Rightarrow> AccountId \<Rightarrow> (i64 \<times> i64) option" where
  "cache_map c account_id = map_option (\<lambda>b. (cb_posted b, cb_pending b)) (map_of c account_id)"

definition cache_wf :: "BalanceCache \<Rightarrow> bool" where
  "cache_wf c \<longleftrightarrow> distinct (map fst c)"

locale balance_cache =
  fixes view :: "'c \<Rightarrow> AccountId \<Rightarrow> (i64 \<times> i64) option"
    and wf :: "'c \<Rightarrow> bool"
    and empty :: 'c
    and set_balance :: "'c \<Rightarrow> AccountId \<Rightarrow> i64 \<Rightarrow> i64 \<Rightarrow> 'c"
    and delta :: "'c \<Rightarrow> AccountId \<Rightarrow> i64 \<Rightarrow> i64 \<Rightarrow> 'c"
    and deltas :: "'c \<Rightarrow> (AccountId \<times> i64 \<times> i64) list \<Rightarrow> 'c"
    and load :: "'c \<Rightarrow> (AccountId \<times> i64 \<times> i64) list \<Rightarrow> 'c"
  assumes view_empty: "view empty = (\<lambda>_. None)"
    and view_set: "view (set_balance c i p q) = (view c)(i \<mapsto> (p, q))"
    and view_delta: "view (delta c i dp dq) =
      (case view c i of None \<Rightarrow> view c
       | Some (p, q) \<Rightarrow> (view c)(i \<mapsto> (i64_saturating_add p dp, i64_saturating_add q dq)))"
    and wf_empty: "wf empty"
    and wf_set: "wf c \<Longrightarrow> wf (set_balance c i p q)"
    and wf_delta: "wf c \<Longrightarrow> wf (delta c i dp dq)"
    and deltas_Nil: "deltas c [] = c"
    and deltas_Cons: "deltas c ((i, dp, dq) # us) = deltas (delta c i dp dq) us"
    and load_Nil: "load c [] = c"
    and load_Cons: "load c ((i, p, q) # rows) = load (set_balance c i p q) rows"
begin

lemma wf_deltas: "wf c \<Longrightarrow> wf (deltas c us)"
proof (induction us arbitrary: c)
  case (Cons u us)
  then show ?case by (cases u) (simp add: deltas_Cons wf_delta)
qed (simp add: deltas_Nil)

lemma wf_load: "wf c \<Longrightarrow> wf (load c rows)"
proof (induction rows arbitrary: c)
  case (Cons r rows)
  then show ?case by (cases r) (simp add: load_Cons wf_set)
qed (simp add: load_Nil)

text \<open>Loading rows with distinct ids into an empty cache gives exactly those rows.\<close>

lemma view_load:
  "distinct (map fst rows) \<Longrightarrow> view (load c rows) i = (case map_of rows i of None \<Rightarrow> view c i | Some v \<Rightarrow> Some v)"
proof (induction rows arbitrary: c)
  case (Cons r rows)
  obtain j p q where r: "r = (j, p, q)" by (metis prod.exhaust)
  with Cons.prems have "map_of rows j = None" by (auto simp: map_of_eq_None_iff)
  with Cons r show ?case by (auto simp: load_Cons view_set split: option.split)
qed (simp add: load_Nil)

text \<open>
  A batch with distinct accounts whose additions stay in range updates every listed
  account exactly once, by ordinary addition.
\<close>

lemma view_deltas:
  assumes "distinct (map fst us)"
    and "\<And>j p q dp dq. (j, dp, dq) \<in> set us \<Longrightarrow> view c j = Some (p, q) \<Longrightarrow>
           in_i64 (sint p + sint dp) \<and> in_i64 (sint q + sint dq)"
  shows "view (deltas c us) i =
     (case view c i of None \<Rightarrow> None
      | Some (p, q) \<Rightarrow>
          (case map_of us i of None \<Rightarrow> Some (p, q) | Some (dp, dq) \<Rightarrow> Some (p + dp, q + dq)))"
  using assms
proof (induction us arbitrary: c)
  case Nil
  show ?case by (simp add: deltas_Nil split: option.split)
next
  case (Cons u us)
  obtain j dp dq where u: "u = (j, dp, dq)" by (metis prod.exhaust)
  let ?c = "delta c j dp dq"
  have fresh: "map_of us j = None"
    using Cons.prems(1) u by (auto simp: map_of_eq_None_iff)
  have other: "view ?c k = view c k" if "k \<noteq> j" for k
    using that by (auto simp: view_delta split: option.split)
  have "view (deltas ?c us) i =
     (case view ?c i of None \<Rightarrow> None
      | Some (p, q) \<Rightarrow>
          (case map_of us i of None \<Rightarrow> Some (p, q) | Some (dp, dq) \<Rightarrow> Some (p + dp, q + dq)))"
  proof (rule Cons.IH)
    show "distinct (map fst us)" using Cons.prems(1) by simp
    fix k p q ep eq assume mem: "(k, ep, eq) \<in> set us" and v: "view ?c k = Some (p, q)"
    from mem Cons.prems(1) u have "k \<noteq> j" by force
    with v mem show "in_i64 (sint p + sint ep) \<and> in_i64 (sint q + sint eq)"
      using Cons.prems(2) [of k ep eq p q] other by simp
  qed
  then show ?case
    using u fresh other [of i] Cons.prems(2) [of j dp dq]
    by (cases "i = j") (auto simp: deltas_Cons view_delta saturating_add_exact split: option.splits)
qed

end

interpretation cache: balance_cache cache_map cache_wf BalanceCache_new cache_set apply_delta apply_deltas rehydrate
proof unfold_locales
  show "cache_map BalanceCache_new = (\<lambda>_. None)"
    by (simp add: cache_map_def BalanceCache_new_def fun_eq_iff)
  show "cache_map (cache_set c i p q) = (cache_map c)(i \<mapsto> (p, q))" for c i p q
    by (simp add: cache_map_def cache_set_def fun_eq_iff update_conv)
  show "cache_map (apply_delta c i dp dq) =
      (case cache_map c i of None \<Rightarrow> cache_map c
       | Some (p, q) \<Rightarrow> (cache_map c)(i \<mapsto> (i64_saturating_add p dp, i64_saturating_add q dq)))"
    for c i dp dq
    by (auto simp: cache_map_def apply_delta_def map_of_map_entry fun_eq_iff split: option.split)
  show "cache_wf BalanceCache_new" by (simp add: cache_wf_def BalanceCache_new_def)
  show "cache_wf c \<Longrightarrow> cache_wf (cache_set c i p q)" for c i p q
    by (simp add: cache_wf_def cache_set_def distinct_update)
  show "cache_wf c \<Longrightarrow> cache_wf (apply_delta c i dp dq)" for c i dp dq
    by (simp add: cache_wf_def apply_delta_def distinct_map_entry)
qed (simp_all add: cache_set_def)

end
