(* ===== verification/Schema.thy ===== *)
theory Schema
  imports Prelude
begin

section \<open>The database schema (\<open>migrations/\<close>)\<close>

text \<open>
  The three tables as lists of rows, with the column types of the migration, the identifier
  sequences behind the \<open>BIGSERIAL\<close> keys, and the constraints every written row is checked
  against: \<open>CHECK\<close>, \<open>UNIQUE\<close>, \<open>PRIMARY KEY\<close>, \<open>REFERENCES\<close> and the width of \<open>VARCHAR(n)\<close>.
  The \<open>JSONB\<close> column holds values of the type parameter \<open>'j\<close>. Errors of the database are
  the values of \<open>pg_error\<close>; only what the source inspects of them is represented.
\<close>

record account_row =
  ar_id :: i64
  ar_account_type :: i16
  ar_asset_code :: string
  ar_asset_scale :: i16
  ar_version :: i32
  ar_posted_balance :: i64
  ar_pending_balance :: i64
  ar_created_at :: i64

record 'j transaction_row =
  tr_id :: i64
  tr_idempotency_key :: string
  tr_status :: i16
  tr_metadata :: 'j
  tr_created_at :: i64
  tr_posted_at :: "i64 option"

record entry_row =
  er_id :: i64
  er_transaction_id :: i64
  er_account_id :: i64
  er_entry_type :: i16
  er_amount :: i64
  er_status :: i16
  er_created_at :: i64

record 'j tables =
  tbl_accounts :: "account_row list"
  tbl_transactions :: "'j transaction_row list"
  tbl_entries :: "entry_row list"

text \<open>The next value of each identifier sequence; sequences are not rolled back.\<close>

record sequences =
  accounts_id_seq :: nat
  transactions_id_seq :: nat
  entries_id_seq :: nat

datatype pg_error =
    Unique_violation "string option"
  | Check_violation string
  | Foreign_key_violation string
  | String_data_right_truncation
  | Numeric_value_out_of_range
  | Sequence_generator_limit_exceeded
  | Pg_other string

datatype sqlx_error = Sqlx_Database pg_error | Sqlx_other string

subsection \<open>Column types\<close>

text \<open>
  Storing into \<open>VARCHAR(n)\<close>: a longer value is an error unless the excess characters are
  all spaces, which are cut.
\<close>

definition varchar :: "nat \<Rightarrow> string \<Rightarrow> (string, pg_error) result" where
  "varchar n s =
     (if length s \<le> n then Ok s
      else if set (drop n s) \<subseteq> {CHR '' ''} then Ok (take n s)
      else Err String_data_right_truncation)"

definition nextval :: "nat \<Rightarrow> (i64, pg_error) result" where
  "nextval n = (if in_i64 (int n) then Ok (of_nat n) else Err Sequence_generator_limit_exceeded)"

text \<open>\<open>BIGINT\<close> and \<open>INTEGER\<close> additions of an \<open>UPDATE\<close> raise an error instead of wrapping.\<close>

definition bigint_add :: "i64 \<Rightarrow> i64 \<Rightarrow> (i64, pg_error) result" where
  "bigint_add a b = (if in_i64 (sint a + sint b) then Ok (a + b) else Err Numeric_value_out_of_range)"

definition integer_add :: "i32 \<Rightarrow> i32 \<Rightarrow> (i32, pg_error) result" where
  "integer_add a b = (if in_i32 (sint a + sint b) then Ok (a + b) else Err Numeric_value_out_of_range)"

definition between :: "int \<Rightarrow> int \<Rightarrow> int \<Rightarrow> bool" where
  "between x lo hi \<longleftrightarrow> lo \<le> x \<and> x \<le> hi"

subsection \<open>Constraints\<close>

definition check :: "bool \<Rightarrow> pg_error \<Rightarrow> (unit, pg_error) result" where
  "check b e = (if b then Ok () else Err e)"

definition unique_detail :: "string \<Rightarrow> string \<Rightarrow> string" where
  "unique_detail column val = ''Key ('' @ column @ '')=('' @ val @ '') already exists.''"

definition check_account_row :: "account_row \<Rightarrow> (unit, pg_error) result" where
  "check_account_row r =
     and_then (check (between (sint (ar_account_type r)) 1 5) (Check_violation ''chk_account_type'')) (\<lambda>_.
     and_then (check (between (sint (ar_asset_scale r)) 0 18) (Check_violation ''chk_asset_scale'')) (\<lambda>_.
     and_then (check (0 < sint (ar_created_at r)) (Check_violation ''chk_created_at'')) (\<lambda>_.
     check (0 \<le> sint (ar_version r)) (Check_violation ''chk_version''))))"

definition check_transaction_row :: "'j transaction_row \<Rightarrow> (unit, pg_error) result" where
  "check_transaction_row r =
     and_then (check (0 < sint (tr_created_at r)) (Check_violation ''chk_created_at'')) (\<lambda>_.
     and_then (check (case tr_posted_at r of None \<Rightarrow> True | Some p \<Rightarrow> 0 < sint p)
                (Check_violation ''chk_posted_at'')) (\<lambda>_.
     check (between (sint (tr_status r)) 1 4) (Check_violation ''chk_status'')))"

definition check_entry_row :: "entry_row \<Rightarrow> (unit, pg_error) result" where
  "check_entry_row r =
     and_then (check (0 < sint (er_amount r)) (Check_violation ''chk_amount'')) (\<lambda>_.
     and_then (check (0 < sint (er_created_at r)) (Check_violation ''chk_created_at'')) (\<lambda>_.
     and_then (check (between (sint (er_entry_type r)) 1 2) (Check_violation ''chk_entry_type'')) (\<lambda>_.
     check (between (sint (er_status r)) 1 3) (Check_violation ''chk_status''))))"

text \<open>The constraints of an inserted row against the rest of the tables.\<close>

definition insert_account_check :: "'j tables \<Rightarrow> account_row \<Rightarrow> (unit, pg_error) result" where
  "insert_account_check t r =
     and_then (check_account_row r) (\<lambda>_.
     check (ar_id r \<notin> ar_id ` set (tbl_accounts t))
       (Unique_violation (Some (unique_detail ''id'' (show_i64 (ar_id r))))))"

definition insert_transaction_check :: "'j tables \<Rightarrow> 'j transaction_row \<Rightarrow> (unit, pg_error) result" where
  "insert_transaction_check t r =
     and_then (check_transaction_row r) (\<lambda>_.
     and_then (check (tr_id r \<notin> tr_id ` set (tbl_transactions t))
       (Unique_violation (Some (unique_detail ''id'' (show_i64 (tr_id r)))))) (\<lambda>_.
     check (tr_idempotency_key r \<notin> tr_idempotency_key ` set (tbl_transactions t))
       (Unique_violation (Some (unique_detail ''idempotency_key'' (tr_idempotency_key r))))))"

definition insert_entry_check :: "'j tables \<Rightarrow> entry_row \<Rightarrow> (unit, pg_error) result" where
  "insert_entry_check t r =
     and_then (check_entry_row r) (\<lambda>_.
     and_then (check (er_id r \<notin> er_id ` set (tbl_entries t))
       (Unique_violation (Some (unique_detail ''id'' (show_i64 (er_id r)))))) (\<lambda>_.
     and_then (check (er_transaction_id r \<in> tr_id ` set (tbl_transactions t))
       (Foreign_key_violation ''entries_transaction_id_fkey'')) (\<lambda>_.
     check (er_account_id r \<in> ar_id ` set (tbl_accounts t))
       (Foreign_key_violation ''entries_account_id_fkey''))))"

definition empty_tables :: "'j tables" where
  "empty_tables = \<lparr> tbl_accounts = [], tbl_transactions = [], tbl_entries = [] \<rparr>"

definition initial_sequences :: sequences where
  "initial_sequences = \<lparr> accounts_id_seq = 1, transactions_id_seq = 1, entries_id_seq = 1 \<rparr>"

lemma check_eq_Ok [result_simps]: "check b e = Ok u \<longleftrightarrow> b"
  by (simp add: check_def)

lemma nextval_eq_Ok [result_simps]: "nextval n = Ok i \<longleftrightarrow> in_i64 (int n) \<and> i = of_nat n"
  by (auto simp: nextval_def)

lemma bigint_add_eq_Ok [result_simps]:
  "bigint_add a b = Ok c \<longleftrightarrow> in_i64 (sint a + sint b) \<and> c = a + b"
  by (auto simp: bigint_add_def)

lemma integer_add_eq_Ok [result_simps]:
  "integer_add a b = Ok c \<longleftrightarrow> in_i32 (sint a + sint b) \<and> c = a + b"
  by (auto simp: integer_add_def)

lemma varchar_short: "length s \<le> n \<Longrightarrow> varchar n s = Ok s"
  by (simp add: varchar_def)

lemma varchar_nonempty: "varchar n s = Ok v \<Longrightarrow> 0 < n \<Longrightarrow> s \<noteq> [] \<Longrightarrow> v \<noteq> []"
  by (auto simp: varchar_def split: if_splits)

lemma sint_of_nat_i64: "in_i64 (int n) \<Longrightarrow> sint (of_nat n :: i64) = int n"
  by (drule sint_of_int_exact) simp

end
