(* ===== verification/StorageError.thy ===== *)
theory StorageError
  imports Schema
begin

section \<open>Storage errors (\<open>storage/mod.rs\<close>)\<close>

text \<open>
  The error type of the storage layer, its display, and the conversion from the errors of
  the database driver, which extracts the duplicate value from the detail text of a unique
  violation. The display of a driver error is text of the driver: the parameter
  \<open>sqlx_display\<close>.
\<close>

datatype StorageError =
    StorageError_Database sqlx_error
  | DataCorruption string
  | StorageError_VersionConflict string i64 i64 i64
  | DuplicateKey string

fun StorageError_to_string :: "(sqlx_error \<Rightarrow> string) \<Rightarrow> StorageError \<Rightarrow> string" where
  "StorageError_to_string sqlx_display (StorageError_Database e) = ''database error: '' @ sqlx_display e"
| "StorageError_to_string sqlx_display (DataCorruption msg) = ''data corruption: '' @ msg"
| "StorageError_to_string sqlx_display (StorageError_VersionConflict entity i expected actual) =
     ''version conflict on '' @ entity @ '' '' @ show_i64 i @ '': expected '' @ show_i64 expected
       @ '', got '' @ show_i64 actual"
| "StorageError_to_string sqlx_display (DuplicateKey key) = ''duplicate idempotency key: '' @ key"

text \<open>The closure over the detail text: the value between \<open>)=(\<close> and the next \<open>)\<close>.\<close>

definition duplicate_value :: "string \<Rightarrow> string option" where
  "duplicate_value d =
     (case find_str '')=('' d of
        None \<Rightarrow> None
      | Some start \<Rightarrow>
          let rest = drop (start + 3) d
          in (case find_str '')'' rest of None \<Rightarrow> None | Some stop \<Rightarrow> Some (take stop rest)))"

fun StorageError_from_sqlx :: "sqlx_error \<Rightarrow> StorageError" where
  "StorageError_from_sqlx (Sqlx_Database (Unique_violation detail)) =
     DuplicateKey
       (case detail of
          None \<Rightarrow> ''unknown''
        | Some d \<Rightarrow> (case duplicate_value d of None \<Rightarrow> ''unknown'' | Some key \<Rightarrow> key))"
| "StorageError_from_sqlx e = StorageError_Database e"

lemma find_detail_separator:
  assumes "CHR '')'' \<notin> set u"
  shows "find_str '')=('' (u @ '')=('' @ v) = Some (length u)"
proof (rule find_str_append)
  fix n assume n: "n < length u"
  then obtain d w where dw: "drop n u = d # w" by (cases "drop n u") simp_all
  then have "d \<in> set (drop n u)" by simp
  then have "d \<in> set u" by (rule in_set_dropD)
  with assms have d: "CHR '')'' \<noteq> d" by metis
  have "drop n (u @ '')=('' @ v) = d # (w @ '')=('' @ v)" using n dw by simp
  then show "\<not> prefix '')=('' (drop n (u @ '')=('' @ v))" using d by (simp del: append_Cons)
qed

text \<open>
  C30. A unique violation on a column whose value has no closing parenthesis is reported with
  exactly the duplicate value: the conversion inverts the detail format
  \<open>Key (column)=(value) already exists.\<close> of the database.
\<close>

theorem duplicate_key_roundtrip:
  assumes "CHR '')'' \<notin> set column" and "CHR '')'' \<notin> set val"
  shows "StorageError_from_sqlx (Sqlx_Database (Unique_violation (Some (unique_detail column val))))
     = DuplicateKey val"
proof -
  let ?u = "''Key ('' @ column"
  have d: "unique_detail column val = ?u @ '')=('' @ (val @ '') already exists.'')"
    by (simp add: unique_detail_def)
  have "find_str '')=('' (?u @ '')=('' @ (val @ '') already exists.'')) = Some (length ?u)"
    using assms(1) by (intro find_detail_separator) auto
  moreover have "drop (length ?u + 3) (?u @ '')=('' @ (val @ '') already exists.''))
      = val @ '') already exists.''"
    by (simp only: drop_append length_append) simp
  moreover have "find_str '')'' (val @ '') already exists.'') = Some (length val)"
    using find_char_append [OF assms(2)] by simp
  ultimately have "duplicate_value (unique_detail column val) = Some val"
    by (simp add: duplicate_value_def d del: append_Cons)
  then show ?thesis by simp
qed

theorem duplicate_key_roundtrip_witness:
  "StorageError_from_sqlx (Sqlx_Database (Unique_violation
      (Some (unique_detail ''idempotency_key'' ''order-42'')))) = DuplicateKey ''order-42''"
  by (rule duplicate_key_roundtrip) simp_all


end
