(* ===== verification/Session.thy ===== *)
theory Session
  imports Prog Cache StorageError
begin

section \<open>Server state and database sessions\<close>

text \<open>
  The state the server's tasks share: the committed tables and their sequences, the balance
  cache and the metrics. A handler's open database transaction is the function its writes
  compose to; statements see the committed tables with the transaction's own writes on top
  (\<open>view\<close>), which is what \<open>READ COMMITTED\<close> gives, and \<open>commit\<close> applies them. Dropping the
  handle without a commit discards them. Sequences advance outside transactions.

  Every call of the database driver can fail. The list of faults decides, call by call, what
  happens: no fault, a failure before the call takes effect, or a lost reply, where the call
  takes effect and the client only sees an error. Theorems quantify over the whole list.
\<close>

text \<open>
  Row locks, and the entry of a unique index that an insertion waits for until the
  transaction that made it ends.
\<close>

datatype row_lock = LockAccount i64 | LockTransaction i64 | LockEntriesOf i64 | LockKey string

datatype fault = NoFault | Fault sqlx_error | LostReply sqlx_error

text \<open>Counters by name and label value, gauges by name.\<close>

record Metrics =
  counters :: "string \<times> string \<Rightarrow> nat"
  gauges :: "string \<Rightarrow> int option"

record 'j server =
  srv_db :: "'j tables"
  srv_seqs :: sequences
  srv_tx :: "('j tables \<Rightarrow> 'j tables) option"
  srv_cache :: BalanceCache
  srv_metrics :: Metrics
  srv_faults :: "fault list"

type_synonym ('j, 'a) storage = "(row_lock list, 'j server, ('a, StorageError) result) prog"

text \<open>
  A statement reads the tables it sees and the sequences, and yields a result, the write it
  performs and the sequences after it.
\<close>

type_synonym ('j, 'a) statement =
  "'j tables \<Rightarrow> sequences \<Rightarrow> ('a, pg_error) result \<times> ('j tables \<Rightarrow> 'j tables) \<times> sequences"

definition view :: "'j server \<Rightarrow> 'j tables" where
  "view s = (case srv_tx s of None \<Rightarrow> srv_db s | Some w \<Rightarrow> w (srv_db s))"

definition next_fault :: "'j server \<Rightarrow> fault \<times> 'j server" where
  "next_fault s =
     (case srv_faults s of [] \<Rightarrow> (NoFault, s) | f # fs \<Rightarrow> (f, s\<lparr>srv_faults := fs\<rparr>))"

definition perform :: "('j, 'a) statement \<Rightarrow> 'j server \<Rightarrow> ('a, sqlx_error) result \<times> 'j server" where
  "perform st s =
     (case st (view s) (srv_seqs s) of (r, w, q) \<Rightarrow>
        (map_err Sqlx_Database r,
         s\<lparr>srv_seqs := q, srv_tx := map_option (\<lambda>f. w \<circ> f) (srv_tx s)\<rparr>))"

definition execute :: "('j, 'a) statement \<Rightarrow> 'j server \<Rightarrow> ('a, sqlx_error) result \<times> 'j server" where
  "execute st s =
     (case next_fault s of
        (NoFault, s1) \<Rightarrow> perform st s1
      | (Fault e, s1) \<Rightarrow> (Err e, s1)
      | (LostReply e, s1) \<Rightarrow> (Err e, snd (perform st s1)))"

text \<open>One statement of the storage layer, with the row locks the database takes for it.\<close>

definition query :: "row_lock list \<Rightarrow> ('j, 'a) statement \<Rightarrow> ('j, 'a) storage" where
  "query locks st = pmap (map_err StorageError_from_sqlx) (atomic locks (execute st))"

text \<open>A statement that runs on a connection of the pool, outside any transaction.\<close>

definition query_pool :: "('j, 'a) statement \<Rightarrow> ('j, 'a) storage" where
  "query_pool st =
     pmap (map_err StorageError_from_sqlx)
       (atomic [] (\<lambda>s. case execute st (s\<lparr>srv_tx := None\<rparr>) of (r, t) \<Rightarrow> (r, t\<lparr>srv_tx := srv_tx s\<rparr>)))"

definition begin_tx :: "'j server \<Rightarrow> (unit, sqlx_error) result \<times> 'j server" where
  "begin_tx s =
     (case next_fault s of
        (NoFault, s1) \<Rightarrow> (Ok (), s1\<lparr>srv_tx := Some id\<rparr>)
      | (Fault e, s1) \<Rightarrow> (Err e, s1)
      | (LostReply e, s1) \<Rightarrow> (Err e, s1))"

definition commit_tx :: "'j server \<Rightarrow> (unit, sqlx_error) result \<times> 'j server" where
  "commit_tx s =
     (case next_fault s of
        (NoFault, s1) \<Rightarrow> (Ok (), s1\<lparr>srv_db := view s1, srv_tx := None\<rparr>)
      | (Fault e, s1) \<Rightarrow> (Err e, s1\<lparr>srv_tx := None\<rparr>)
      | (LostReply e, s1) \<Rightarrow> (Err e, s1\<lparr>srv_db := view s1, srv_tx := None\<rparr>))"

text \<open>The end of the scope of a transaction handle: what was not committed is rolled back.\<close>

definition drop_tx :: "(row_lock list, 'j server, 'a) prog \<Rightarrow> (row_lock list, 'j server, 'a) prog" where
  "drop_tx m = pbind m (\<lambda>r. atomic [] (\<lambda>s. (r, s\<lparr>srv_tx := None\<rparr>)))"

definition increment :: "string \<Rightarrow> string \<Rightarrow> 'j server \<Rightarrow> 'j server" where
  "increment name label s =
     s\<lparr>srv_metrics := (srv_metrics s)\<lparr>counters :=
        (counters (srv_metrics s))((name, label) := Suc (counters (srv_metrics s) (name, label)))\<rparr>\<rparr>"

definition set_gauge :: "string \<Rightarrow> int \<Rightarrow> 'j server \<Rightarrow> 'j server" where
  "set_gauge name v s =
     s\<lparr>srv_metrics := (srv_metrics s)\<lparr>gauges := (gauges (srv_metrics s))(name \<mapsto> v)\<rparr>\<rparr>"

subsection \<open>Lemmas on sessions\<close>

text \<open>Some coming call takes effect without its reply.\<close>

definition lossy :: "'j server \<Rightarrow> bool" where
  "lossy s \<longleftrightarrow> (\<exists>e. LostReply e \<in> set (srv_faults s))"

lemma next_fault_cases:
  obtains f fs where "next_fault s = (f, s\<lparr>srv_faults := fs\<rparr>)"
    and "lossy (s\<lparr>srv_faults := fs\<rparr>) \<Longrightarrow> lossy s" and "\<And>e. f = LostReply e \<Longrightarrow> lossy s"
proof (cases "srv_faults s")
  case Nil
  then have "next_fault s = (NoFault, s\<lparr>srv_faults := []\<rparr>)" by (simp add: next_fault_def)
  then show ?thesis by (rule that) (simp_all add: lossy_def)
next
  case (Cons f fs)
  show ?thesis
  proof (rule that)
    show "next_fault s = (f, s\<lparr>srv_faults := fs\<rparr>)" using Cons by (simp add: next_fault_def)
    show "lossy (s\<lparr>srv_faults := fs\<rparr>) \<Longrightarrow> lossy s" using Cons by (auto simp: lossy_def)
    show "\<And>e. f = LostReply e \<Longrightarrow> lossy s" using Cons by (auto simp: lossy_def)
  qed
qed

lemma lossy_update [simp]:
  "lossy (s\<lparr>srv_seqs := q\<rparr>) = lossy s" "lossy (s\<lparr>srv_tx := w\<rparr>) = lossy s"
  "lossy (s\<lparr>srv_cache := c\<rparr>) = lossy s" "lossy (s\<lparr>srv_metrics := m\<rparr>) = lossy s"
  "lossy (s\<lparr>srv_db := d\<rparr>) = lossy s"
  by (simp_all add: lossy_def)

lemma view_update [simp]:
  "view (s\<lparr>srv_seqs := q\<rparr>) = view s"
  "view (s\<lparr>srv_faults := fs\<rparr>) = view s"
  "view (s\<lparr>srv_cache := c\<rparr>) = view s"
  "view (s\<lparr>srv_metrics := m\<rparr>) = view s"
  by (simp_all add: view_def split: option.split)

lemma view_tx [simp]: "view (s\<lparr>srv_tx := Some w\<rparr>) = w (srv_db s)" "view (s\<lparr>srv_tx := None\<rparr>) = srv_db s"
  by (simp_all add: view_def)

lemma view_closed: "srv_tx s = None \<Longrightarrow> view s = srv_db s"
  by (simp add: view_def)

subsection \<open>Triples inside a transaction\<close>

definition seq_le :: "sequences \<Rightarrow> sequences \<Rightarrow> bool" where
  "seq_le q q' \<longleftrightarrow>
     accounts_id_seq q \<le> accounts_id_seq q' \<and> transactions_id_seq q \<le> transactions_id_seq q'
     \<and> entries_id_seq q \<le> entries_id_seq q'"

text \<open>
  Inside a transaction on the committed tables \<open>D\<close> and the cache \<open>C\<close>, what the transaction
  sees satisfies \<open>P\<close>; replies can be lost only if \<open>L\<close>.
\<close>

definition tx_in ::
    "'j tables \<Rightarrow> BalanceCache \<Rightarrow> bool \<Rightarrow> ('j tables \<Rightarrow> sequences \<Rightarrow> bool) \<Rightarrow> 'j server \<Rightarrow> bool" where
  "tx_in D C L P s \<longleftrightarrow>
     srv_db s = D \<and> srv_cache s = C \<and> (lossy s \<longrightarrow> L) \<and> srv_tx s \<noteq> None \<and> P (view s) (srv_seqs s)"

text \<open>Nothing was committed: only sequences moved.\<close>

definition untouched :: "'j tables \<Rightarrow> BalanceCache \<Rightarrow> sequences \<Rightarrow> 'j server \<Rightarrow> bool" where
  "untouched D C q s \<longleftrightarrow> srv_db s = D \<and> srv_cache s = C \<and> seq_le q (srv_seqs s)"

lemma seq_le_refl [simp, intro]: "seq_le q q"
  by (simp add: seq_le_def)

lemma seq_le_trans [trans]: "seq_le p q \<Longrightarrow> seq_le q r \<Longrightarrow> seq_le p r"
  by (auto simp: seq_le_def)

lemma view_perform:
  assumes "srv_tx s \<noteq> None" and "st (view s) (srv_seqs s) = (r, w, q)"
  shows "perform st s = (map_err Sqlx_Database r, snd (perform st s))"
    and "srv_db (snd (perform st s)) = srv_db s" and "srv_cache (snd (perform st s)) = srv_cache s"
    and "lossy (snd (perform st s)) = lossy s" and "srv_tx (snd (perform st s)) \<noteq> None" and "srv_seqs (snd (perform st s)) = q"
    and "view (snd (perform st s)) = w (view s)"
  using assms by (auto simp: perform_def view_def)

lemma triple_query:
  assumes ok: "\<And>V q x w q'. P V q \<Longrightarrow> st V q = (Ok x, w, q') \<Longrightarrow> Q x (w V) q'"
    and le: "\<And>V q. P V q \<Longrightarrow> seq_le q0 q \<and> seq_le q (snd (snd (st V q)))"
  shows "triple (tx_in D C L P) (query l st) (\<lambda>x. tx_in D C L (Q x)) (\<lambda>e. untouched D C q0)"
  unfolding query_def
proof (rule triple_pmap_map_err, rule triple_atomic)
  fix s x t assume pre: "tx_in D C L P s" and run: "execute st s = (Ok x, t)"
  obtain f fs where nf: "next_fault s = (f, s\<lparr>srv_faults := fs\<rparr>)" and lossy: "lossy (s\<lparr>srv_faults := fs\<rparr>) \<Longrightarrow> lossy s"
    by (rule next_fault_cases [of s]) blast
  let ?s = "s\<lparr>srv_faults := fs\<rparr>"
  obtain r w q where st: "st (view ?s) (srv_seqs ?s) = (r, w, q)" by (metis prod.exhaust)
  have open_tx: "srv_tx ?s \<noteq> None" using pre by (simp add: tx_in_def)
  from run nf have "perform st ?s = (Ok x, t)"
    by (cases f) (simp_all add: execute_def)
  with view_perform(1) [where st = st, OF open_tx st] have "r = Ok x" and t: "t = snd (perform st ?s)"
    by (auto simp: result_simps)
  then show "tx_in D C L (Q x) t"
    using pre lossy view_perform(2-) [where st = st, OF open_tx st] ok [of "view s" "srv_seqs s" x w q] st
    by (auto simp: tx_in_def)
next
  fix s e t assume pre: "tx_in D C L P s" and run: "execute st s = (Err e, t)"
  obtain f fs where nf: "next_fault s = (f, s\<lparr>srv_faults := fs\<rparr>)" and lossy: "lossy (s\<lparr>srv_faults := fs\<rparr>) \<Longrightarrow> lossy s"
    by (rule next_fault_cases [of s]) blast
  let ?s = "s\<lparr>srv_faults := fs\<rparr>"
  obtain r w q where st: "st (view ?s) (srv_seqs ?s) = (r, w, q)" by (metis prod.exhaust)
  have open_tx: "srv_tx ?s \<noteq> None" using pre by (simp add: tx_in_def)
  have le': "seq_le q0 (srv_seqs s)" "seq_le (srv_seqs s) q"
    using pre le [of "view s" "srv_seqs s"] st by (auto simp: tx_in_def)
  from run nf have "t = ?s \<or> t = snd (perform st ?s)"
    by (cases f) (auto simp: execute_def)
  then show "untouched D C q0 t"
    using pre view_perform(2,3,6) [where st = st, OF open_tx st] le' seq_le_trans [OF le']
    by (auto simp: untouched_def tx_in_def)
qed

lemma triple_begin:
  "triple (\<lambda>s. srv_db s = D \<and> srv_cache s = C \<and> srv_seqs s = q0 \<and> (lossy s \<longrightarrow> L)) (pmap (map_err g) (atomic l begin_tx))
     (\<lambda>_. tx_in D C L (\<lambda>V q. V = D \<and> q = q0)) (\<lambda>e. untouched D C q0)"
proof (rule triple_pmap_map_err, rule triple_atomic)
  fix s and x :: unit and t
  assume pre: "srv_db s = D \<and> srv_cache s = C \<and> srv_seqs s = q0 \<and> (lossy s \<longrightarrow> L)" and run: "begin_tx s = (Ok x, t)"
  obtain f fs where "next_fault s = (f, s\<lparr>srv_faults := fs\<rparr>)"
    and "lossy (s\<lparr>srv_faults := fs\<rparr>) \<Longrightarrow> lossy s" and "\<And>e. f = LostReply e \<Longrightarrow> lossy s"
    by (rule next_fault_cases [of s]) blast
  with pre run show "tx_in D C L (\<lambda>V q. V = D \<and> q = q0) t"
    by (cases f) (auto simp: begin_tx_def tx_in_def)
next
  fix s e t
  assume pre: "srv_db s = D \<and> srv_cache s = C \<and> srv_seqs s = q0 \<and> (lossy s \<longrightarrow> L)" and run: "begin_tx s = (Err e, t)"
  obtain f fs where "next_fault s = (f, s\<lparr>srv_faults := fs\<rparr>)"
    and "lossy (s\<lparr>srv_faults := fs\<rparr>) \<Longrightarrow> lossy s" and "\<And>e. f = LostReply e \<Longrightarrow> lossy s"
    by (rule next_fault_cases [of s]) blast
  with pre run show "untouched D C q0 t"
    by (cases f) (auto simp: begin_tx_def untouched_def)
qed

text \<open>
  After a commit that reports success the committed tables are what the transaction saw. A
  commit that reports failure either changed nothing or took effect with its reply lost.
\<close>

lemma triple_commit:
  assumes "\<And>V q. P V q \<Longrightarrow> seq_le q0 q"
  shows "triple (tx_in D C L P) (atomic l commit_tx)
     (\<lambda>_ s. srv_cache s = C \<and> srv_tx s = None \<and> P (srv_db s) (srv_seqs s))
     (\<lambda>e s. untouched D C q0 s \<or> (L \<and> srv_cache s = C \<and> P (srv_db s) (srv_seqs s)))"
proof (rule triple_atomic)
  fix s and x :: unit and t
  assume pre: "tx_in D C L P s" and run: "commit_tx s = (Ok x, t)"
  obtain f fs where "next_fault s = (f, s\<lparr>srv_faults := fs\<rparr>)"
    and "lossy (s\<lparr>srv_faults := fs\<rparr>) \<Longrightarrow> lossy s" and "\<And>e. f = LostReply e \<Longrightarrow> lossy s"
    by (rule next_fault_cases [of s]) blast
  with pre run show "srv_cache t = C \<and> srv_tx t = None \<and> P (srv_db t) (srv_seqs t)"
    by (cases f) (auto simp: commit_tx_def tx_in_def)
next
  fix s e t
  assume pre: "tx_in D C L P s" and run: "commit_tx s = (Err e, t)"
  obtain f fs where "next_fault s = (f, s\<lparr>srv_faults := fs\<rparr>)"
    and "lossy (s\<lparr>srv_faults := fs\<rparr>) \<Longrightarrow> lossy s" and "\<And>e. f = LostReply e \<Longrightarrow> lossy s"
    by (rule next_fault_cases [of s]) blast
  with pre run assms show "untouched D C q0 t \<or> (L \<and> srv_cache t = C \<and> P (srv_db t) (srv_seqs t))"
    by (cases f) (auto simp: commit_tx_def tx_in_def untouched_def)
qed

end
