(* ===== verification/Postgres.thy ===== *)
theory Postgres
  imports Session Entry
begin

section \<open>The storage layer (\<open>storage/postgres.rs\<close>)\<close>

text \<open>
  \<open>PostgresStorage\<close>: one definition per method, each a program over the server state whose
  SQL statement is written out over the tables of the schema, followed by what the method
  makes of the returned rows. The integer encodings of the enums satisfy the \<open>codec\<close>
  contract.
\<close>

subsection \<open>Encodings of the enum columns\<close>

fun account_type_to_i16 :: "AccountType \<Rightarrow> i16" where
  "account_type_to_i16 Asset = 1"
| "account_type_to_i16 Liability = 2"
| "account_type_to_i16 Equity = 3"
| "account_type_to_i16 Revenue = 4"
| "account_type_to_i16 Expense = 5"

definition i16_to_account_type :: "i16 \<Rightarrow> (AccountType, StorageError) result" where
  "i16_to_account_type i =
     (if i = 1 then Ok Asset else if i = 2 then Ok Liability else if i = 3 then Ok Equity
      else if i = 4 then Ok Revenue else if i = 5 then Ok Expense
      else Err (DataCorruption (''invalid account_type: '' @ show_int (sint i))))"

fun transaction_status_to_i16 :: "TransactionStatus \<Rightarrow> i16" where
  "transaction_status_to_i16 TS_Pending = 1"
| "transaction_status_to_i16 TS_Posted = 2"
| "transaction_status_to_i16 TS_Voided = 3"
| "transaction_status_to_i16 TS_Failed = 4"

definition i16_to_transaction_status :: "i16 \<Rightarrow> (TransactionStatus, StorageError) result" where
  "i16_to_transaction_status i =
     (if i = 1 then Ok TS_Pending else if i = 2 then Ok TS_Posted else if i = 3 then Ok TS_Voided
      else if i = 4 then Ok TS_Failed
      else Err (DataCorruption (''invalid transaction_status: '' @ show_int (sint i))))"

fun entry_type_to_i16 :: "EntryType \<Rightarrow> i16" where
  "entry_type_to_i16 ET_Debit = 1"
| "entry_type_to_i16 ET_Credit = 2"

definition i16_to_entry_type :: "i16 \<Rightarrow> (EntryType, StorageError) result" where
  "i16_to_entry_type i =
     (if i = 1 then Ok ET_Debit else if i = 2 then Ok ET_Credit
      else Err (DataCorruption (''invalid entry_type: '' @ show_int (sint i))))"

fun entry_status_to_i16 :: "EntryStatus \<Rightarrow> i16" where
  "entry_status_to_i16 ES_Pending = 1"
| "entry_status_to_i16 ES_Posted = 2"
| "entry_status_to_i16 ES_Voided = 3"

definition i16_to_entry_status :: "i16 \<Rightarrow> (EntryStatus, StorageError) result" where
  "i16_to_entry_status i =
     (if i = 1 then Ok ES_Pending else if i = 2 then Ok ES_Posted else if i = 3 then Ok ES_Voided
      else Err (DataCorruption (''invalid entry_status: '' @ show_int (sint i))))"

interpretation account_type_i16: codec account_type_to_i16 i16_to_account_type
proof
  show "i16_to_account_type (account_type_to_i16 x) = Ok x" for x
    by (cases x) (simp_all add: i16_to_account_type_def)
  show "i16_to_account_type i = Ok x \<Longrightarrow> account_type_to_i16 x = i" for i x
    by (auto simp: i16_to_account_type_def split: if_splits)
qed

interpretation transaction_status_i16: codec transaction_status_to_i16 i16_to_transaction_status
proof
  show "i16_to_transaction_status (transaction_status_to_i16 x) = Ok x" for x
    by (cases x) (simp_all add: i16_to_transaction_status_def)
  show "i16_to_transaction_status i = Ok x \<Longrightarrow> transaction_status_to_i16 x = i" for i x
    by (auto simp: i16_to_transaction_status_def split: if_splits)
qed

interpretation entry_type_i16: codec entry_type_to_i16 i16_to_entry_type
proof
  show "i16_to_entry_type (entry_type_to_i16 x) = Ok x" for x
    by (cases x) (simp_all add: i16_to_entry_type_def)
  show "i16_to_entry_type i = Ok x \<Longrightarrow> entry_type_to_i16 x = i" for i x
    by (auto simp: i16_to_entry_type_def split: if_splits)
qed

interpretation entry_status_i16: codec entry_status_to_i16 i16_to_entry_status
proof
  show "i16_to_entry_status (entry_status_to_i16 x) = Ok x" for x
    by (cases x) (simp_all add: i16_to_entry_status_def)
  show "i16_to_entry_status i = Ok x \<Longrightarrow> entry_status_to_i16 x = i" for i x
    by (auto simp: i16_to_entry_status_def split: if_splits)
qed

subsection \<open>Rows to domain values\<close>

definition build_account ::
    "i64 \<Rightarrow> i16 \<Rightarrow> string \<Rightarrow> i16 \<Rightarrow> i64 \<Rightarrow> i64 \<Rightarrow> (Account, StorageError) result" where
  "build_account i account_type asset_code asset_scale version created_at =
     and_then (i16_to_account_type account_type) (\<lambda>ty.
     map_err (\<lambda>e. DataCorruption (''invalid account data: '' @ AccountError_to_string e))
       (Account_new (AccountId_from_raw i) ty asset_code (ucast asset_scale) version created_at))"

definition build_transaction ::
    "i64 \<Rightarrow> string \<Rightarrow> i16 \<Rightarrow> 'j \<Rightarrow> i64 \<Rightarrow> i64 option \<Rightarrow> ('j Transaction, StorageError) result" where
  "build_transaction i key status metadata created_at posted_at =
     and_then (i16_to_transaction_status status) (\<lambda>st.
     map_err (\<lambda>e. DataCorruption (''invalid transaction data: '' @ TransactionError_to_string e))
       (Transaction_new (TransactionId_from_raw i) key st metadata created_at
         (case posted_at of None \<Rightarrow> 0 | Some p \<Rightarrow> p)))"

definition build_entry ::
    "i64 \<Rightarrow> i64 \<Rightarrow> i64 \<Rightarrow> i16 \<Rightarrow> i64 \<Rightarrow> i16 \<Rightarrow> i64 \<Rightarrow> (Entry, StorageError) result" where
  "build_entry i transaction_id account_id entry_type amount status created_at =
     and_then (i16_to_entry_type entry_type) (\<lambda>ty.
     and_then (i16_to_entry_status status) (\<lambda>st.
     map_err (\<lambda>e. DataCorruption (''invalid entry data: '' @ EntryError_to_string e))
       (Entry_new (EntryId_from_raw i) (TransactionId_from_raw transaction_id)
         (AccountId_from_raw account_id) ty (Amount_from_raw amount) st created_at)))"

definition account_of_row :: "account_row \<Rightarrow> (Account, StorageError) result" where
  "account_of_row r = build_account (ar_id r) (ar_account_type r) (ar_asset_code r)
     (ar_asset_scale r) (scast (ar_version r)) (ar_created_at r)"

definition transaction_of_row :: "'j transaction_row \<Rightarrow> ('j Transaction, StorageError) result" where
  "transaction_of_row r = build_transaction (tr_id r) (tr_idempotency_key r) (tr_status r)
     (tr_metadata r) (tr_created_at r) (tr_posted_at r)"

definition entry_of_row :: "entry_row \<Rightarrow> (Entry, StorageError) result" where
  "entry_of_row r = build_entry (er_id r) (er_transaction_id r) (er_account_id r)
     (er_entry_type r) (er_amount r) (er_status r) (er_created_at r)"

subsection \<open>Statements\<close>

definition select :: "('j tables \<Rightarrow> 'a) \<Rightarrow> ('j, 'a) statement" where
  "select f t q = (Ok (f t), id, q)"

text \<open>\<open>INSERT ... RETURNING id\<close>: the id comes from the sequence of the table.\<close>

definition insert_returning ::
    "(sequences \<Rightarrow> nat) \<Rightarrow> (sequences \<Rightarrow> sequences) \<Rightarrow> ('j tables \<Rightarrow> i64 \<Rightarrow> ('r, pg_error) result)
      \<Rightarrow> ('r \<Rightarrow> 'j tables \<Rightarrow> 'j tables) \<Rightarrow> ('j, i64) statement" where
  "insert_returning seq bump build put t q =
     (case nextval (seq q) of
        Err e \<Rightarrow> (Err e, id, q)
      | Ok i \<Rightarrow>
          (case build t i of
             Err e \<Rightarrow> (Err e, id, bump q)
           | Ok r \<Rightarrow> (Ok i, put r, bump q)))"

text \<open>\<open>UPDATE ... SET ... WHERE\<close>: the rows with \<open>P\<close> are replaced; the result is their number.\<close>

definition set_where :: "('r \<Rightarrow> bool) \<Rightarrow> ('r \<Rightarrow> ('r, pg_error) result) \<Rightarrow> 'r list \<Rightarrow> 'r list" where
  "set_where P f rows = map (\<lambda>r. if P r then (case f r of Ok r' \<Rightarrow> r' | Err e \<Rightarrow> r) else r) rows"

definition update_where ::
    "('j tables \<Rightarrow> 'r list) \<Rightarrow> (('r list \<Rightarrow> 'r list) \<Rightarrow> 'j tables \<Rightarrow> 'j tables)
      \<Rightarrow> ('r \<Rightarrow> bool) \<Rightarrow> ('r \<Rightarrow> ('r, pg_error) result) \<Rightarrow> ('j, nat) statement" where
  "update_where get upd P f t q =
     (case map_result f (filter P (get t)) of
        Err e \<Rightarrow> (Err e, id, q)
      | Ok rs \<Rightarrow> (Ok (length rs), upd (set_where P f), q))"

subsection \<open>The methods of \<open>PostgresStorage\<close>\<close>

definition begin_transaction :: "('j, unit) storage" where
  "begin_transaction = pmap (map_err StorageError_from_sqlx) (atomic [] begin_tx)"

definition create_account :: "AccountType \<Rightarrow> string \<Rightarrow> u8 \<Rightarrow> i64 \<Rightarrow> ('j, AccountId) storage" where
  "create_account account_type asset_code asset_scale created_at =
     await
       (query []
         (insert_returning accounts_id_seq (accounts_id_seq_update Suc)
           (\<lambda>t i. and_then (varchar 16 asset_code) (\<lambda>code.
              let row = \<lparr> ar_id = i, ar_account_type = account_type_to_i16 account_type,
                          ar_asset_code = code, ar_asset_scale = ucast asset_scale,
                          ar_version = 0, ar_posted_balance = 0, ar_pending_balance = 0,
                          ar_created_at = created_at \<rparr>
              in and_then (insert_account_check t row) (\<lambda>_. Ok row)))
           (\<lambda>row. tbl_accounts_update (\<lambda>rows. rows @ [row]))))
       (\<lambda>i. Done (Ok (AccountId_from_raw i)))"

definition fetch_account :: "row_lock list \<Rightarrow> AccountId \<Rightarrow> ('j, Account option) storage" where
  "fetch_account locks account_id =
     await
       (query locks (select (\<lambda>t. find (\<lambda>r. ar_id r = account_id_value account_id) (tbl_accounts t))))
       (\<lambda>row. case row of
          Some r \<Rightarrow> attempt (account_of_row r) (\<lambda>account. Done (Ok (Some account)))
        | None \<Rightarrow> Done (Ok None))"

definition get_account :: "AccountId \<Rightarrow> ('j, Account option) storage" where
  "get_account account_id = fetch_account [] account_id"

definition get_account_for_update :: "AccountId \<Rightarrow> ('j, Account option) storage" where
  "get_account_for_update account_id =
     fetch_account [LockAccount (account_id_value account_id)] account_id"

text \<open>The error of the two versioned updates when no row has the expected version.\<close>

definition version_mismatch :: "string \<Rightarrow> AccountId \<Rightarrow> i64 \<Rightarrow> ('j, unit) storage" where
  "version_mismatch what account_id expected_version =
     await
       (query [] (select (\<lambda>t. map_option ar_version
         (find (\<lambda>r. ar_id r = account_id_value account_id) (tbl_accounts t)))))
       (\<lambda>current. case current of
          Some v \<Rightarrow> Done (Err (StorageError_VersionConflict ''account'' (account_id_value account_id)
                                expected_version (scast v)))
        | None \<Rightarrow> Done (Err (DataCorruption (''account '' @ AccountId_to_string account_id
                              @ '' not found during '' @ what @ '' update''))))"

definition increment_account_version :: "AccountId \<Rightarrow> i64 \<Rightarrow> ('j, unit) storage" where
  "increment_account_version account_id expected_version =
     await
       (query [LockAccount (account_id_value account_id)]
         (update_where tbl_accounts tbl_accounts_update
           (\<lambda>r. ar_id r = account_id_value account_id \<and> ar_version r = scast expected_version)
           (\<lambda>r. and_then (integer_add (ar_version r) 1) (\<lambda>v.
              let r' = r\<lparr>ar_version := v\<rparr> in and_then (check_account_row r') (\<lambda>_. Ok r')))))
       (\<lambda>rows_affected.
          if rows_affected = 0 then version_mismatch ''version'' account_id expected_version
          else Done (Ok ()))"

definition create_transaction ::
    "string \<Rightarrow> TransactionStatus \<Rightarrow> 'j \<Rightarrow> i64 \<Rightarrow> i64 option \<Rightarrow> ('j, TransactionId) storage" where
  "create_transaction key status metadata created_at posted_at =
     await
       (query (case varchar 64 key of Ok k \<Rightarrow> [LockKey k] | Err e \<Rightarrow> [])
         (insert_returning transactions_id_seq (transactions_id_seq_update Suc)
           (\<lambda>t i. and_then (varchar 64 key) (\<lambda>k.
              let row = \<lparr> tr_id = i, tr_idempotency_key = k,
                          tr_status = transaction_status_to_i16 status, tr_metadata = metadata,
                          tr_created_at = created_at, tr_posted_at = posted_at \<rparr>
              in and_then (insert_transaction_check t row) (\<lambda>_. Ok row)))
           (\<lambda>row. tbl_transactions_update (\<lambda>rows. rows @ [row]))))
       (\<lambda>i. Done (Ok (TransactionId_from_raw i)))"

definition get_transaction :: "TransactionId \<Rightarrow> ('j, 'j Transaction option) storage" where
  "get_transaction transaction_id =
     await
       (query [] (select (\<lambda>t.
          find (\<lambda>r. tr_id r = transaction_id_value transaction_id) (tbl_transactions t))))
       (\<lambda>row. case row of
          Some r \<Rightarrow> attempt (transaction_of_row r) (\<lambda>txn. Done (Ok (Some txn)))
        | None \<Rightarrow> Done (Ok None))"

definition find_transaction_by_key :: "string \<Rightarrow> ('j, 'j Transaction option) storage" where
  "find_transaction_by_key key =
     await
       (query [] (select (\<lambda>t. find (\<lambda>r. tr_idempotency_key r = key) (tbl_transactions t))))
       (\<lambda>row. case row of
          Some r \<Rightarrow> attempt (transaction_of_row r) (\<lambda>txn. Done (Ok (Some txn)))
        | None \<Rightarrow> Done (Ok None))"

definition update_transaction_status ::
    "TransactionId \<Rightarrow> TransactionStatus \<Rightarrow> i64 option \<Rightarrow> ('j, unit) storage" where
  "update_transaction_status transaction_id status posted_at =
     await
       (query [LockTransaction (transaction_id_value transaction_id)]
         (update_where tbl_transactions tbl_transactions_update
           (\<lambda>r. tr_id r = transaction_id_value transaction_id)
           (\<lambda>r. let r' = r\<lparr>tr_status := transaction_status_to_i16 status, tr_posted_at := posted_at\<rparr>
                in and_then (check_transaction_row r') (\<lambda>_. Ok r'))))
       (\<lambda>rows_affected.
          if rows_affected = 0
          then Done (Err (DataCorruption (''transaction '' @ TransactionId_to_string transaction_id
                             @ '' not found during status update'')))
          else Done (Ok ()))"

definition create_entry ::
    "TransactionId \<Rightarrow> AccountId \<Rightarrow> EntryType \<Rightarrow> Amount \<Rightarrow> EntryStatus \<Rightarrow> i64 \<Rightarrow> ('j, EntryId) storage" where
  "create_entry transaction_id account_id entry_type amount status created_at =
     await
       (query []
         (insert_returning entries_id_seq (entries_id_seq_update Suc)
           (\<lambda>t i.
              let row = \<lparr> er_id = i, er_transaction_id = transaction_id_value transaction_id,
                          er_account_id = account_id_value account_id,
                          er_entry_type = entry_type_to_i16 entry_type,
                          er_amount = amount_value amount,
                          er_status = entry_status_to_i16 status, er_created_at = created_at \<rparr>
              in and_then (insert_entry_check t row) (\<lambda>_. Ok row))
           (\<lambda>row. tbl_entries_update (\<lambda>rows. rows @ [row]))))
       (\<lambda>i. Done (Ok (EntryId_from_raw i)))"

definition get_entries_for_transaction :: "TransactionId \<Rightarrow> ('j, Entry list) storage" where
  "get_entries_for_transaction transaction_id =
     await
       (query [] (select (\<lambda>t. sort_key (\<lambda>r. sint (er_id r))
          (filter (\<lambda>r. er_transaction_id r = transaction_id_value transaction_id) (tbl_entries t)))))
       (\<lambda>rows. attempt (map_result entry_of_row rows) (\<lambda>es. Done (Ok es)))"

definition get_entries_for_account :: "AccountId \<Rightarrow> ('j, Entry list) storage" where
  "get_entries_for_account account_id =
     await
       (query [] (select (\<lambda>t. sort_key (\<lambda>r. sint (er_id r))
          (filter (\<lambda>r. er_account_id r = account_id_value account_id) (tbl_entries t)))))
       (\<lambda>rows. attempt (map_result entry_of_row rows) (\<lambda>es. Done (Ok es)))"

definition update_entry_status_by_transaction :: "TransactionId \<Rightarrow> EntryStatus \<Rightarrow> ('j, nat) storage" where
  "update_entry_status_by_transaction transaction_id status =
     query [LockEntriesOf (transaction_id_value transaction_id)]
       (update_where tbl_entries tbl_entries_update
         (\<lambda>r. er_transaction_id r = transaction_id_value transaction_id)
         (\<lambda>r. let r' = r\<lparr>er_status := entry_status_to_i16 status\<rparr>
              in and_then (check_entry_row r') (\<lambda>_. Ok r')))"

definition get_account_balance :: "AccountId \<Rightarrow> ('j, (i64 \<times> i64) option) storage" where
  "get_account_balance account_id =
     await
       (query [] (select (\<lambda>t. find (\<lambda>r. ar_id r = account_id_value account_id) (tbl_accounts t))))
       (\<lambda>row. Done (Ok (map_option (\<lambda>r. (ar_posted_balance r, ar_pending_balance r)) row)))"

definition update_account_balance ::
    "AccountId \<Rightarrow> i64 \<Rightarrow> i64 \<Rightarrow> i64 \<Rightarrow> ('j, unit) storage" where
  "update_account_balance account_id expected_version delta_posted delta_pending =
     await
       (query [LockAccount (account_id_value account_id)]
         (update_where tbl_accounts tbl_accounts_update
           (\<lambda>r. ar_id r = account_id_value account_id \<and> ar_version r = scast expected_version)
           (\<lambda>r. and_then (bigint_add (ar_posted_balance r) delta_posted) (\<lambda>p.
                and_then (bigint_add (ar_pending_balance r) delta_pending) (\<lambda>n.
                and_then (integer_add (ar_version r) 1) (\<lambda>v.
                let r' = r\<lparr>ar_posted_balance := p, ar_pending_balance := n, ar_version := v\<rparr>
                in and_then (check_account_row r') (\<lambda>_. Ok r')))))))
       (\<lambda>rows_affected.
          if rows_affected = 0 then version_mismatch ''balance'' account_id expected_version
          else Done (Ok ()))"

definition load_all_balances :: "('j, (AccountId \<times> i64 \<times> i64) list) storage" where
  "load_all_balances =
     await
       (query_pool (select (\<lambda>t. map (\<lambda>r. (ar_id r, ar_posted_balance r, ar_pending_balance r)) (tbl_accounts t))))
       (\<lambda>rows. Done (Ok (map (\<lambda>(i, posted, pending). (AccountId_from_raw i, posted, pending)) rows)))"

end
