(* ===== verification/ServiceError.thy ===== *)
theory ServiceError
  imports Postgres
begin

section \<open>Service errors and gRPC statuses (\<open>service/mod.rs\<close>)\<close>

text \<open>
  The error type of the service layer, its display, the conversions from every lower error
  type, and the mapping to gRPC statuses. The mapping hides the text of internal errors.
\<close>

datatype ServiceError =
    AccountNotFound i64
  | TransactionNotFound i64
  | InsufficientFunds i64 i64 i64
  | InvalidTransactionState i64 TransactionStatus string
  | DuplicateTransaction string
  | ServiceError_UnbalancedTransaction i64 i64
  | InvalidArgument string
  | ServiceError_VersionConflict string i64
  | Internal string

text \<open>The status codes of gRPC that the service returns.\<close>

datatype Code =
    Code_InvalidArgument | Code_NotFound | Code_AlreadyExists | Code_FailedPrecondition
  | Code_Aborted | Code_Internal

datatype Status = Status (status_code: Code) (status_message: string)

fun ServiceError_to_string :: "ServiceError \<Rightarrow> string" where
  "ServiceError_to_string (AccountNotFound account_id) =
     ''account '' @ show_i64 account_id @ '' not found''"
| "ServiceError_to_string (TransactionNotFound transaction_id) =
     ''transaction '' @ show_i64 transaction_id @ '' not found''"
| "ServiceError_to_string (InsufficientFunds account_id available requested) =
     ''insufficient funds on account '' @ show_i64 account_id @ '': available ''
       @ show_i64 available @ '', requested '' @ show_i64 requested"
| "ServiceError_to_string (InvalidTransactionState transaction_id current attempted) =
     ''cannot '' @ attempted @ '' transaction '' @ show_i64 transaction_id
       @ '': current state '' @ TransactionStatus_debug current"
| "ServiceError_to_string (DuplicateTransaction key) = ''duplicate transaction with key '' @ key"
| "ServiceError_to_string (ServiceError_UnbalancedTransaction d c) =
     ''unbalanced transaction: debits '' @ show_i64 d @ '' != credits '' @ show_i64 c"
| "ServiceError_to_string (InvalidArgument msg) = ''invalid argument: '' @ msg"
| "ServiceError_to_string (ServiceError_VersionConflict entity i) =
     ''version conflict on '' @ entity @ '' '' @ show_i64 i @ '', retry''"
| "ServiceError_to_string (Internal msg) = ''internal error: '' @ msg"

fun ServiceError_from_StorageError :: "(sqlx_error \<Rightarrow> string) \<Rightarrow> StorageError \<Rightarrow> ServiceError" where
  "ServiceError_from_StorageError sqlx_display (StorageError_VersionConflict entity i expected actual) =
     ServiceError_VersionConflict entity i"
| "ServiceError_from_StorageError sqlx_display (DuplicateKey key) = DuplicateTransaction key"
| "ServiceError_from_StorageError sqlx_display (DataCorruption msg) = Internal msg"
| "ServiceError_from_StorageError sqlx_display (StorageError_Database e) = Internal (sqlx_display e)"

fun ServiceError_from_ValidationError :: "ValidationError \<Rightarrow> ServiceError" where
  "ServiceError_from_ValidationError (InsufficientLegs n) =
     InvalidArgument (''transaction requires at least 2 legs, got '' @ show_nat n)"
| "ServiceError_from_ValidationError (ValidationError_UnbalancedTransaction d c) =
     ServiceError_UnbalancedTransaction d c"
| "ServiceError_from_ValidationError e = Internal (ValidationError_to_string e)"

definition ServiceError_from_TransferLegError :: "TransferLegError \<Rightarrow> ServiceError" where
  "ServiceError_from_TransferLegError e = InvalidArgument (TransferLegError_to_string e)"

definition ServiceError_from_AmountError :: "AmountError \<Rightarrow> ServiceError" where
  "ServiceError_from_AmountError e = InvalidArgument (AmountError_to_string e)"

definition ServiceError_from_AccountError :: "AccountError \<Rightarrow> ServiceError" where
  "ServiceError_from_AccountError e = InvalidArgument (AccountError_to_string e)"

definition ServiceError_from_EntryError :: "EntryError \<Rightarrow> ServiceError" where
  "ServiceError_from_EntryError e = InvalidArgument (EntryError_to_string e)"

definition ServiceError_from_TransactionError :: "TransactionError \<Rightarrow> ServiceError" where
  "ServiceError_from_TransactionError e = InvalidArgument (TransactionError_to_string e)"

fun Status_from_ServiceError :: "ServiceError \<Rightarrow> Status" where
  "Status_from_ServiceError (Internal msg) = Status Code_Internal ''internal error''"
| "Status_from_ServiceError e =
     Status
       (case e of
          AccountNotFound _ \<Rightarrow> Code_NotFound
        | TransactionNotFound _ \<Rightarrow> Code_NotFound
        | InsufficientFunds _ _ _ \<Rightarrow> Code_FailedPrecondition
        | InvalidTransactionState _ _ _ \<Rightarrow> Code_FailedPrecondition
        | DuplicateTransaction _ \<Rightarrow> Code_AlreadyExists
        | ServiceError_UnbalancedTransaction _ _ \<Rightarrow> Code_InvalidArgument
        | InvalidArgument _ \<Rightarrow> Code_InvalidArgument
        | ServiceError_VersionConflict _ _ \<Rightarrow> Code_Aborted
        | Internal _ \<Rightarrow> Code_Internal)
       (ServiceError_to_string e)"


end
