(* ===== verification/Ledger.thy ===== *)
theory Ledger
  imports ServiceError
begin

section \<open>The ledger service (\<open>service/ledger.rs\<close>)\<close>

text \<open>
  The seven RPC handlers of \<open>LedgerService\<close>, written as programs over the server state in
  the order of the source: validation, the database transaction, the commit, the update of
  the cache, the response. What the handlers take from outside (the clock, the JSON parser,
  the display of driver errors) is the record \<open>env\<close>. The \<open>+=\<close> and \<open>-=\<close> on balance deltas
  are the wrapping operations of the release build; the invariant proofs show their results
  to be exact.
\<close>

record 'j env =
  env_now :: i64
  env_json_from_str :: "string \<Rightarrow> ('j, string) result"
  env_json_empty :: 'j
  env_sqlx_display :: "sqlx_error \<Rightarrow> string"

text \<open>A handler returns an error status, or panics in an \<open>unwrap\<close>.\<close>

datatype abort = Failed Status | Panic

type_synonym ('j, 'a) rpc = "(row_lock list, 'j server, ('a, abort) result) prog"

subsection \<open>Protocol messages\<close>

record ProtoAccount =
  pa_id :: i64
  pa_account_type :: i32
  pa_normal_balance :: i32
  pa_asset_code :: string
  pa_asset_scale :: i32
  pa_version :: i64
  pa_created_at :: i64

record ProtoEntry =
  pe_id :: i64
  pe_transaction_id :: i64
  pe_account_id :: i64
  pe_entry_type :: i32
  pe_amount :: i64
  pe_status :: i32
  pe_created_at :: i64

record ProtoTransaction =
  pt_id :: i64
  pt_idempotency_key :: string
  pt_status :: i32
  pt_created_at :: i64
  pt_posted_at :: i64

record ProtoBalance =
  pb_posted :: i64
  pb_pending :: i64
  pb_available :: i64

record ProtoTransferLeg =
  pl_account_id :: i64
  pl_entry_type :: i32
  pl_amount :: i64

record CreateAccountRequest =
  car_account_type :: i32
  car_asset_code :: string
  car_asset_scale :: i32

record AuthorizeRequest =
  aur_idempotency_key :: string
  aur_legs :: "ProtoTransferLeg list"
  aur_metadata :: string

record AuthorizeResponse =
  aus_transaction :: ProtoTransaction
  aus_entries :: "ProtoEntry list"

subsection \<open>Conversions between protocol and domain\<close>

definition proto_to_account_type :: "i32 \<Rightarrow> (AccountType, ServiceError) result" where
  "proto_to_account_type v =
     (if v = 1 then Ok Asset else if v = 2 then Ok Liability else if v = 3 then Ok Equity
      else if v = 4 then Ok Revenue else if v = 5 then Ok Expense
      else Err (InvalidArgument (''invalid account_type: '' @ show_int (sint v))))"

definition proto_to_entry_type :: "i32 \<Rightarrow> (EntryType, ServiceError) result" where
  "proto_to_entry_type v =
     (if v = 1 then Ok ET_Debit else if v = 2 then Ok ET_Credit
      else Err (InvalidArgument (''invalid entry_type: '' @ show_int (sint v))))"

fun account_type_to_proto :: "AccountType \<Rightarrow> i32" where
  "account_type_to_proto Asset = 1"
| "account_type_to_proto Liability = 2"
| "account_type_to_proto Equity = 3"
| "account_type_to_proto Revenue = 4"
| "account_type_to_proto Expense = 5"

fun normal_balance_to_proto :: "NormalBalance \<Rightarrow> i32" where
  "normal_balance_to_proto NB_Debit = 1"
| "normal_balance_to_proto NB_Credit = 2"

fun entry_type_to_proto :: "EntryType \<Rightarrow> i32" where
  "entry_type_to_proto ET_Debit = 1"
| "entry_type_to_proto ET_Credit = 2"

fun entry_status_to_proto :: "EntryStatus \<Rightarrow> i32" where
  "entry_status_to_proto ES_Pending = 1"
| "entry_status_to_proto ES_Posted = 2"
| "entry_status_to_proto ES_Voided = 3"

fun transaction_status_to_proto :: "TransactionStatus \<Rightarrow> i32" where
  "transaction_status_to_proto TS_Pending = 1"
| "transaction_status_to_proto TS_Posted = 2"
| "transaction_status_to_proto TS_Voided = 3"
| "transaction_status_to_proto TS_Failed = 4"

definition account_to_proto :: "Account \<Rightarrow> ProtoAccount" where
  "account_to_proto a =
     \<lparr> pa_id = account_id_value (a_id a),
       pa_account_type = account_type_to_proto (a_account_type a),
       pa_normal_balance = normal_balance_to_proto (Account_normal_balance a),
       pa_asset_code = a_asset_code a,
       pa_asset_scale = ucast (a_asset_scale a),
       pa_version = a_version a,
       pa_created_at = a_created_at a \<rparr>"

definition entry_to_proto :: "Entry \<Rightarrow> ProtoEntry" where
  "entry_to_proto e =
     \<lparr> pe_id = entry_id_value (e_id e),
       pe_transaction_id = transaction_id_value (e_transaction_id e),
       pe_account_id = account_id_value (e_account_id e),
       pe_entry_type = entry_type_to_proto (e_entry_type e),
       pe_amount = amount_value (e_amount e),
       pe_status = entry_status_to_proto (e_status e),
       pe_created_at = e_created_at e \<rparr>"

definition transaction_to_proto :: "'j Transaction \<Rightarrow> ProtoTransaction" where
  "transaction_to_proto t =
     \<lparr> pt_id = transaction_id_value (t_id t),
       pt_idempotency_key = t_idempotency_key t,
       pt_status = transaction_status_to_proto (t_status t),
       pt_created_at = t_created_at t,
       pt_posted_at = t_posted_at t \<rparr>"

definition parse_transfer_leg :: "ProtoTransferLeg \<Rightarrow> (TransferLeg, ServiceError) result" where
  "parse_transfer_leg leg =
     and_then (map_err ServiceError_from_AccountError (AccountId_new (pl_account_id leg))) (\<lambda>account_id.
     and_then (proto_to_entry_type (pl_entry_type leg)) (\<lambda>entry_type.
     and_then (map_err ServiceError_from_AmountError (Amount_new (pl_amount leg))) (\<lambda>amount.
     map_err ServiceError_from_TransferLegError (TransferLeg_new account_id entry_type amount))))"

definition parse_transfer_legs :: "ProtoTransferLeg list \<Rightarrow> (TransferLeg list, ServiceError) result" where
  "parse_transfer_legs proto_legs = map_result parse_transfer_leg proto_legs"

interpretation account_type_proto: codec account_type_to_proto proto_to_account_type
proof
  show "proto_to_account_type (account_type_to_proto x) = Ok x" for x
    by (cases x) (simp_all add: proto_to_account_type_def)
  show "proto_to_account_type i = Ok x \<Longrightarrow> account_type_to_proto x = i" for i x
    by (auto simp: proto_to_account_type_def split: if_splits)
qed

interpretation entry_type_proto: codec entry_type_to_proto proto_to_entry_type
proof
  show "proto_to_entry_type (entry_type_to_proto x) = Ok x" for x
    by (cases x) (simp_all add: proto_to_entry_type_def)
  show "proto_to_entry_type i = Ok x \<Longrightarrow> entry_type_to_proto x = i" for i x
    by (auto simp: proto_to_entry_type_def split: if_splits)
qed

subsection \<open>Steps the handlers share\<close>

definition service_error :: "ServiceError \<Rightarrow> abort" where
  "service_error e = Failed (Status_from_ServiceError e)"

text \<open>\<open>.await.map_err(ServiceError::from)?\<close> on a call of the storage layer.\<close>

definition svc :: "'j env \<Rightarrow> ('j, 'a) storage \<Rightarrow> ('j, 'a) rpc" where
  "svc env m =
     pmap (map_err (\<lambda>e. service_error (ServiceError_from_StorageError (env_sqlx_display env) e))) m"

definition commit :: "'j env \<Rightarrow> ('j, unit) rpc" where
  "commit env =
     pmap (map_err (\<lambda>e. service_error (Internal (env_sqlx_display env e)))) (atomic [] commit_tx)"

definition count_event :: "string \<Rightarrow> string \<Rightarrow> ('j, unit) rpc" where
  "count_event name label = atomic [] (\<lambda>s. (Ok (), increment name label s))"

definition read_cache :: "AccountId \<Rightarrow> ('j, AccountBalance option) rpc" where
  "read_cache account_id = atomic [] (\<lambda>s. (Ok (cache_get (srv_cache s) account_id), s))"

definition write_cache :: "(BalanceCache \<Rightarrow> BalanceCache) \<Rightarrow> ('j, unit) rpc" where
  "write_cache f = atomic [] (\<lambda>s. (Ok (), s\<lparr>srv_cache := f (srv_cache s)\<rparr>))"

text \<open>Unique accounts in the order of their ids.\<close>

definition lock_order :: "AccountId list \<Rightarrow> AccountId list" where
  "lock_order ids = remdups_adj (sort_key (\<lambda>i. sint (account_id_value i)) ids)"

fun lock_accounts :: "'j env \<Rightarrow> AccountId list \<Rightarrow> Account list \<Rightarrow> ('j, Account list) rpc" where
  "lock_accounts env [] acc = Done (Ok acc)"
| "lock_accounts env (account_id # account_ids) acc =
     await (svc env (get_account_for_update account_id)) (\<lambda>found.
     attempt (ok_or found (service_error (AccountNotFound (account_id_value account_id)))) (\<lambda>account.
     lock_accounts env account_ids (acc @ [account])))"

text \<open>\<open>accounts.iter().find(|a| a.id() == id).unwrap()\<close>.\<close>

definition find_account :: "Account list \<Rightarrow> AccountId \<Rightarrow> (Account, abort) result" where
  "find_account accts account_id = ok_or (find (\<lambda>a. a_id a = account_id) accts) Panic"

fun apply_balance_updates ::
    "'j env \<Rightarrow> Account list \<Rightarrow> (AccountId \<times> i64 \<times> i64) list \<Rightarrow> ('j, unit) rpc" where
  "apply_balance_updates env accts [] = Done (Ok ())"
| "apply_balance_updates env accts ((account_id, posted_delta, pending_delta) # updates) =
     attempt (find_account accts account_id) (\<lambda>account.
     await (svc env (update_account_balance account_id (a_version account) posted_delta pending_delta)) (\<lambda>_.
     apply_balance_updates env accts updates))"

fun update_cache :: "(AccountId \<times> i64 \<times> i64) list \<Rightarrow> ('j, unit) rpc" where
  "update_cache [] = Done (Ok ())"
| "update_cache ((account_id, posted_delta, pending_delta) # updates) =
     await (write_cache (\<lambda>c. apply_delta c account_id posted_delta pending_delta)) (\<lambda>_.
     update_cache updates)"

subsection \<open>Accounts and balances\<close>

definition rpc_create_account :: "'j env \<Rightarrow> CreateAccountRequest \<Rightarrow> ('j, ProtoAccount) rpc" where
  "rpc_create_account env req = drop_tx (
     attempt (map_err service_error (proto_to_account_type (car_account_type req))) (\<lambda>account_type.
     let asset_code = car_asset_code req; asset_scale = (ucast (car_asset_scale req) :: u8) in
     if asset_code = [] then Done (Err (service_error (InvalidArgument ''asset_code is required'')))
     else if 18 < uint asset_scale then
       Done (Err (service_error (InvalidArgument
         (''asset_scale '' @ show_int (uint asset_scale) @ '' exceeds max 18''))))
     else
       let now = env_now env in
       await (svc env begin_transaction) (\<lambda>_.
       await (svc env (create_account account_type asset_code asset_scale now)) (\<lambda>account_id.
       await (commit env) (\<lambda>_.
       await (write_cache (\<lambda>c. cache_set c account_id 0 0)) (\<lambda>_.
       attempt (map_err (\<lambda>e. service_error (ServiceError_from_AccountError e))
         (Account_new account_id account_type asset_code asset_scale 0 now)) (\<lambda>account.
       Done (Ok (account_to_proto account)))))))))"

definition rpc_get_account :: "'j env \<Rightarrow> i64 \<Rightarrow> ('j, ProtoAccount) rpc" where
  "rpc_get_account env req_account_id = drop_tx (
     attempt (map_err (\<lambda>e. service_error (ServiceError_from_AccountError e))
       (AccountId_new req_account_id)) (\<lambda>account_id.
     await (svc env begin_transaction) (\<lambda>_.
     await (svc env (get_account account_id)) (\<lambda>found.
     attempt (ok_or found (service_error (AccountNotFound (account_id_value account_id)))) (\<lambda>account.
     await (commit env) (\<lambda>_.
     Done (Ok (account_to_proto account))))))))"

definition rpc_get_balance :: "'j env \<Rightarrow> i64 \<Rightarrow> ('j, ProtoBalance) rpc" where
  "rpc_get_balance env req_account_id =
     attempt (map_err (\<lambda>e. service_error (ServiceError_from_AccountError e))
       (AccountId_new req_account_id)) (\<lambda>account_id.
     await (read_cache account_id) (\<lambda>cached.
     attempt (ok_or cached (service_error (AccountNotFound (account_id_value account_id)))) (\<lambda>balance.
     Done (Ok \<lparr> pb_posted = b_posted balance, pb_pending = b_pending balance,
                pb_available = b_available balance \<rparr>))))"

subsection \<open>Authorize\<close>

definition parse_metadata :: "'j env \<Rightarrow> string \<Rightarrow> ('j, ServiceError) result" where
  "parse_metadata env metadata =
     (if metadata = [] then Ok (env_json_empty env)
      else map_err (\<lambda>e. InvalidArgument (''invalid metadata json: '' @ e))
        (env_json_from_str env metadata))"

fun reduces_balance :: "NormalBalance \<Rightarrow> EntryType \<Rightarrow> bool" where
  "reduces_balance NB_Debit ET_Credit \<longleftrightarrow> True"
| "reduces_balance NB_Credit ET_Debit \<longleftrightarrow> True"
| "reduces_balance _ _ \<longleftrightarrow> False"

fun check_available :: "Account list \<Rightarrow> TransferLeg list \<Rightarrow> ('j, unit) rpc" where
  "check_available accts [] = Done (Ok ())"
| "check_available accts (leg # legs) =
     attempt (find_account accts (l_account_id leg)) (\<lambda>account.
     if reduces_balance (Account_normal_balance account) (l_entry_type leg) then
       await (read_cache (l_account_id leg)) (\<lambda>cached.
       attempt (ok_or cached
         (service_error (AccountNotFound (account_id_value (l_account_id leg))))) (\<lambda>balance.
       if \<not> has_available balance (l_amount leg) then
         await (count_event ''fides_insufficient_funds_total'' []) (\<lambda>_.
         Done (Err (service_error (InsufficientFunds (account_id_value (l_account_id leg))
           (b_available balance) (amount_value (l_amount leg))))))
       else check_available accts legs))
     else check_available accts legs)"

text \<open>Accumulate one pending delta per account.\<close>

fun add_pending :: "(AccountId \<times> i64 \<times> i64) list \<Rightarrow> AccountId \<Rightarrow> i64 \<Rightarrow> (AccountId \<times> i64 \<times> i64) list" where
  "add_pending [] account_id delta = [(account_id, 0, delta)]"
| "add_pending ((i, posted, pending) # updates) account_id delta =
     (if i = account_id then (i, posted, pending + delta) # updates
      else (i, posted, pending) # add_pending updates account_id delta)"

fun create_entries ::
    "'j env \<Rightarrow> TransactionId \<Rightarrow> Account list \<Rightarrow> i64 \<Rightarrow> TransferLeg list \<Rightarrow> Entry list
      \<Rightarrow> (AccountId \<times> i64 \<times> i64) list \<Rightarrow> ('j, Entry list \<times> (AccountId \<times> i64 \<times> i64) list) rpc" where
  "create_entries env transaction_id accts now [] es updates = Done (Ok (es, updates))"
| "create_entries env transaction_id accts now (leg # legs) es updates =
     attempt (find_account accts (l_account_id leg)) (\<lambda>account.
     await (svc env (create_entry transaction_id (l_account_id leg) (l_entry_type leg)
       (l_amount leg) ES_Pending now)) (\<lambda>entry_id.
     attempt (map_err (\<lambda>e. service_error (ServiceError_from_EntryError e))
       (Entry_new entry_id transaction_id (l_account_id leg) (l_entry_type leg) (l_amount leg)
         ES_Pending now)) (\<lambda>entry.
     let delta = compute_balance_delta (Account_normal_balance account) (l_entry_type leg) (l_amount leg) in
     create_entries env transaction_id accts now legs (es @ [entry])
       (add_pending updates (l_account_id leg) delta))))"

text \<open>The part of the handler after the idempotency check.\<close>

definition authorize_new ::
    "'j env \<Rightarrow> string \<Rightarrow> 'j \<Rightarrow> TransferLeg list \<Rightarrow> i64 \<Rightarrow> ('j, AuthorizeResponse) rpc" where
  "authorize_new env key metadata legs now =
     await (lock_accounts env (lock_order (map l_account_id legs)) []) (\<lambda>accts.
     await (check_available accts legs) (\<lambda>_.
     await (svc env (create_transaction key TS_Pending metadata now None)) (\<lambda>transaction_id.
     await (create_entries env transaction_id accts now legs [] []) (\<lambda>(es, balance_updates).
     await (apply_balance_updates env accts balance_updates) (\<lambda>_.
     await (commit env) (\<lambda>_.
     await (update_cache balance_updates) (\<lambda>_.
     await (count_event ''fides_transactions_total'' ''pending'') (\<lambda>_.
     attempt (map_err (\<lambda>e. service_error (ServiceError_from_TransactionError e))
       (Transaction_new transaction_id key TS_Pending metadata now 0)) (\<lambda>transaction.
     Done (Ok \<lparr> aus_transaction = transaction_to_proto transaction,
                aus_entries = map entry_to_proto es \<rparr>))))))))))"

definition rpc_authorize :: "'j env \<Rightarrow> AuthorizeRequest \<Rightarrow> ('j, AuthorizeResponse) rpc" where
  "rpc_authorize env req = drop_tx (
     if aur_idempotency_key req = [] then
       Done (Err (service_error (InvalidArgument ''idempotency_key is required'')))
     else
     attempt (map_err service_error (parse_metadata env (aur_metadata req))) (\<lambda>metadata.
     attempt (map_err service_error (parse_transfer_legs (aur_legs req))) (\<lambda>legs.
     attempt (map_err (\<lambda>e. service_error (ServiceError_from_ValidationError e))
       (validate_transaction_balance legs)) (\<lambda>_.
     let now = env_now env in
     await (svc env begin_transaction) (\<lambda>_.
     await (svc env (find_transaction_by_key (aur_idempotency_key req))) (\<lambda>found.
     case found of
       Some existing \<Rightarrow>
         await (svc env (get_entries_for_transaction (t_id existing))) (\<lambda>es.
         await (commit env) (\<lambda>_.
         await (count_event ''fides_idempotent_hits_total'' ''authorize'') (\<lambda>_.
         Done (Ok \<lparr> aus_transaction = transaction_to_proto existing,
                    aus_entries = map entry_to_proto es \<rparr>))))
     | None \<Rightarrow> authorize_new env (aur_idempotency_key req) metadata legs now))))))"

subsection \<open>Capture and void\<close>

fun move_to_posted :: "(AccountId \<times> i64 \<times> i64) list \<Rightarrow> AccountId \<Rightarrow> i64 \<Rightarrow> (AccountId \<times> i64 \<times> i64) list" where
  "move_to_posted [] account_id delta = [(account_id, delta, - delta)]"
| "move_to_posted ((i, posted, pending) # updates) account_id delta =
     (if i = account_id then (i, posted + delta, pending - delta) # updates
      else (i, posted, pending) # move_to_posted updates account_id delta)"

fun capture_updates ::
    "Account list \<Rightarrow> Entry list \<Rightarrow> (AccountId \<times> i64 \<times> i64) list
      \<Rightarrow> ((AccountId \<times> i64 \<times> i64) list, abort) result" where
  "capture_updates accts [] updates = Ok updates"
| "capture_updates accts (entry # es) updates =
     and_then (find_account accts (e_account_id entry)) (\<lambda>account.
     let delta = compute_balance_delta (Account_normal_balance account) (e_entry_type entry) (e_amount entry) in
     capture_updates accts es (move_to_posted updates (e_account_id entry) delta))"

definition capture_pending ::
    "'j env \<Rightarrow> TransactionId \<Rightarrow> 'j Transaction \<Rightarrow> i64 \<Rightarrow> ('j, ProtoTransaction) rpc" where
  "capture_pending env transaction_id transaction now =
     await (svc env (get_entries_for_transaction transaction_id)) (\<lambda>es.
     await (lock_accounts env (lock_order (map e_account_id es)) []) (\<lambda>accts.
     attempt (capture_updates accts es []) (\<lambda>balance_updates.
     await (svc env (update_transaction_status transaction_id TS_Posted (Some now))) (\<lambda>_.
     await (svc env (update_entry_status_by_transaction transaction_id ES_Posted)) (\<lambda>_.
     await (apply_balance_updates env accts balance_updates) (\<lambda>_.
     await (commit env) (\<lambda>_.
     await (update_cache balance_updates) (\<lambda>_.
     await (count_event ''fides_transactions_total'' ''posted'') (\<lambda>_.
     attempt (map_err (\<lambda>e. service_error (ServiceError_from_TransactionError e))
       (Transaction_new transaction_id (t_idempotency_key transaction) TS_Posted
         (t_metadata transaction) (t_created_at transaction) now)) (\<lambda>updated.
     Done (Ok (transaction_to_proto updated))))))))))))"

definition rpc_capture :: "'j env \<Rightarrow> i64 \<Rightarrow> ('j, ProtoTransaction) rpc" where
  "rpc_capture env req_transaction_id = drop_tx (
     attempt (map_err (\<lambda>e. service_error (ServiceError_from_TransactionError e))
       (TransactionId_new req_transaction_id)) (\<lambda>transaction_id.
     let now = env_now env in
     await (svc env begin_transaction) (\<lambda>_.
     await (svc env (get_transaction transaction_id)) (\<lambda>found.
     attempt (ok_or found
       (service_error (TransactionNotFound (transaction_id_value transaction_id)))) (\<lambda>transaction.
     if t_status transaction = TS_Posted then
       await (commit env) (\<lambda>_.
       await (count_event ''fides_idempotent_hits_total'' ''capture'') (\<lambda>_.
       Done (Ok (transaction_to_proto transaction))))
     else if t_status transaction \<noteq> TS_Pending then
       Done (Err (service_error (InvalidTransactionState (transaction_id_value transaction_id)
         (t_status transaction) ''capture'')))
     else capture_pending env transaction_id transaction now)))))"

fun remove_pending :: "(AccountId \<times> i64 \<times> i64) list \<Rightarrow> AccountId \<Rightarrow> i64 \<Rightarrow> (AccountId \<times> i64 \<times> i64) list" where
  "remove_pending [] account_id delta = [(account_id, 0, - delta)]"
| "remove_pending ((i, posted, pending) # updates) account_id delta =
     (if i = account_id then (i, posted, pending - delta) # updates
      else (i, posted, pending) # remove_pending updates account_id delta)"

fun void_updates ::
    "Account list \<Rightarrow> Entry list \<Rightarrow> (AccountId \<times> i64 \<times> i64) list
      \<Rightarrow> ((AccountId \<times> i64 \<times> i64) list, abort) result" where
  "void_updates accts [] updates = Ok updates"
| "void_updates accts (entry # es) updates =
     and_then (find_account accts (e_account_id entry)) (\<lambda>account.
     let delta = compute_balance_delta (Account_normal_balance account) (e_entry_type entry) (e_amount entry) in
     void_updates accts es (remove_pending updates (e_account_id entry) delta))"

definition void_pending ::
    "'j env \<Rightarrow> TransactionId \<Rightarrow> 'j Transaction \<Rightarrow> ('j, ProtoTransaction) rpc" where
  "void_pending env transaction_id transaction =
     await (svc env (get_entries_for_transaction transaction_id)) (\<lambda>es.
     await (lock_accounts env (lock_order (map e_account_id es)) []) (\<lambda>accts.
     attempt (void_updates accts es []) (\<lambda>balance_updates.
     await (svc env (update_transaction_status transaction_id TS_Voided None)) (\<lambda>_.
     await (svc env (update_entry_status_by_transaction transaction_id ES_Voided)) (\<lambda>_.
     await (apply_balance_updates env accts balance_updates) (\<lambda>_.
     await (commit env) (\<lambda>_.
     await (update_cache balance_updates) (\<lambda>_.
     await (count_event ''fides_transactions_total'' ''voided'') (\<lambda>_.
     attempt (map_err (\<lambda>e. service_error (ServiceError_from_TransactionError e))
       (Transaction_new transaction_id (t_idempotency_key transaction) TS_Voided
         (t_metadata transaction) (t_created_at transaction) 0)) (\<lambda>updated.
     Done (Ok (transaction_to_proto updated))))))))))))"

definition rpc_void :: "'j env \<Rightarrow> i64 \<Rightarrow> ('j, ProtoTransaction) rpc" where
  "rpc_void env req_transaction_id = drop_tx (
     attempt (map_err (\<lambda>e. service_error (ServiceError_from_TransactionError e))
       (TransactionId_new req_transaction_id)) (\<lambda>transaction_id.
     await (svc env begin_transaction) (\<lambda>_.
     await (svc env (get_transaction transaction_id)) (\<lambda>found.
     attempt (ok_or found
       (service_error (TransactionNotFound (transaction_id_value transaction_id)))) (\<lambda>transaction.
     if t_status transaction = TS_Voided then
       await (commit env) (\<lambda>_.
       await (count_event ''fides_idempotent_hits_total'' ''void'') (\<lambda>_.
       Done (Ok (transaction_to_proto transaction))))
     else if t_status transaction \<noteq> TS_Pending then
       Done (Err (service_error (InvalidTransactionState (transaction_id_value transaction_id)
         (t_status transaction) ''void'')))
     else void_pending env transaction_id transaction)))))"

subsection \<open>Entries\<close>

text \<open>The stream the handler returns delivers these messages in this order.\<close>

definition rpc_get_entries :: "'j env \<Rightarrow> i64 \<Rightarrow> ('j, ProtoEntry list) rpc" where
  "rpc_get_entries env req_account_id = drop_tx (
     attempt (map_err (\<lambda>e. service_error (ServiceError_from_AccountError e))
       (AccountId_new req_account_id)) (\<lambda>account_id.
     await (svc env begin_transaction) (\<lambda>_.
     await (svc env (get_account account_id)) (\<lambda>found.
     attempt (ok_or found (service_error (AccountNotFound (account_id_value account_id)))) (\<lambda>_.
     await (svc env (get_entries_for_account account_id)) (\<lambda>es.
     await (commit env) (\<lambda>_.
     Done (Ok (map entry_to_proto es)))))))))"

end
