(* ===== verification/Invariant.thy ===== *)
theory Invariant
  imports Ledger
begin

section \<open>The ledger invariant\<close>

text \<open>
  What the tables promise between requests: identifiers are unique and below their
  sequence; rows satisfy the domain constraints; every entry belongs to an account and to a
  transaction with the same lifecycle state; the entries of every transaction balance; and
  the materialised balances of every account are the signed sums of its posted and its
  pending entries. The sums are over the mathematical integers.
\<close>

subsection \<open>Sums over entry rows\<close>

definition row_nb :: "account_row \<Rightarrow> NormalBalance" where
  "row_nb a = (if ar_account_type a = 1 \<or> ar_account_type a = 5 then NB_Debit else NB_Credit)"

definition row_et :: "entry_row \<Rightarrow> EntryType" where
  "row_et r = (if er_entry_type r = 1 then ET_Debit else ET_Credit)"

definition row_delta :: "NormalBalance \<Rightarrow> entry_row \<Rightarrow> int" where
  "row_delta nb r = signed_amount nb (row_et r) (sint (er_amount r))"

text \<open>The signed sum of the entries of an account in a lifecycle state.\<close>

definition account_sum :: "i16 \<Rightarrow> account_row \<Rightarrow> entry_row list \<Rightarrow> int" where
  "account_sum st a es = sum_list (map (row_delta (row_nb a))
     (filter (\<lambda>r. er_account_id r = ar_id a \<and> er_status r = st) es))"

definition side_sum :: "EntryType \<Rightarrow> entry_row list \<Rightarrow> int" where
  "side_sum ty es = sum_list (map (\<lambda>r. sint (er_amount r)) (filter (\<lambda>r. row_et r = ty) es))"

definition of_txn :: "i64 \<Rightarrow> entry_row list \<Rightarrow> entry_row list" where
  "of_txn tid es = filter (\<lambda>r. er_transaction_id r = tid) es"

subsection \<open>The invariant\<close>

definition account_row_ok :: "account_row \<Rightarrow> bool" where
  "account_row_ok a \<longleftrightarrow>
     0 < sint (ar_id a) \<and> between (sint (ar_account_type a)) 1 5 \<and> ar_asset_code a \<noteq> []
     \<and> between (sint (ar_asset_scale a)) 0 18 \<and> 0 \<le> sint (ar_version a) \<and> 0 < sint (ar_created_at a)"

definition transaction_row_ok :: "'j transaction_row \<Rightarrow> bool" where
  "transaction_row_ok t \<longleftrightarrow>
     0 < sint (tr_id t) \<and> tr_idempotency_key t \<noteq> [] \<and> tr_status t \<in> {1, 2, 3}
     \<and> 0 < sint (tr_created_at t)
     \<and> (case tr_posted_at t of None \<Rightarrow> tr_status t \<noteq> 2 | Some p \<Rightarrow> tr_status t = 2 \<and> 0 < sint p)"

definition entry_row_ok :: "entry_row \<Rightarrow> bool" where
  "entry_row_ok e \<longleftrightarrow>
     0 < sint (er_id e) \<and> er_entry_type e \<in> {1, 2} \<and> 0 < sint (er_amount e)
     \<and> er_status e \<in> {1, 2, 3} \<and> 0 < sint (er_created_at e)"

definition accounts_wf :: "account_row list \<Rightarrow> sequences \<Rightarrow> bool" where
  "accounts_wf as q \<longleftrightarrow>
     0 < accounts_id_seq q \<and> distinct (map ar_id as) \<and> (\<forall>a \<in> set as. account_row_ok a \<and> sint (ar_id a) < int (accounts_id_seq q))"

definition transactions_wf :: "'j transaction_row list \<Rightarrow> sequences \<Rightarrow> bool" where
  "transactions_wf ts q \<longleftrightarrow>
     0 < transactions_id_seq q \<and> distinct (map tr_id ts) \<and> distinct (map tr_idempotency_key ts)
     \<and> (\<forall>t \<in> set ts. transaction_row_ok t \<and> sint (tr_id t) < int (transactions_id_seq q))"

definition entries_wf :: "entry_row list \<Rightarrow> sequences \<Rightarrow> bool" where
  "entries_wf es q \<longleftrightarrow>
     0 < entries_id_seq q \<and> sorted_wrt (<) (map (\<lambda>r. sint (er_id r)) es)
     \<and> (\<forall>e \<in> set es. entry_row_ok e \<and> sint (er_id e) < int (entries_id_seq q))"

definition references_ok :: "'j tables \<Rightarrow> bool" where
  "references_ok T \<longleftrightarrow>
     (\<forall>e \<in> set (tbl_entries T).
        er_account_id e \<in> ar_id ` set (tbl_accounts T)
        \<and> (\<exists>t \<in> set (tbl_transactions T). tr_id t = er_transaction_id e \<and> tr_status t = er_status e))"

definition txns_balanced :: "'j tables \<Rightarrow> bool" where
  "txns_balanced T \<longleftrightarrow>
     (\<forall>t \<in> set (tbl_transactions T).
        side_sum ET_Debit (of_txn (tr_id t) (tbl_entries T)) = side_sum ET_Credit (of_txn (tr_id t) (tbl_entries T))
        \<and> side_sum ET_Debit (of_txn (tr_id t) (tbl_entries T)) < 2 ^ 63)"

definition balances_ok :: "'j tables \<Rightarrow> bool" where
  "balances_ok T \<longleftrightarrow>
     (\<forall>a \<in> set (tbl_accounts T).
        sint (ar_posted_balance a) = account_sum 2 a (tbl_entries T)
        \<and> sint (ar_pending_balance a) = account_sum 1 a (tbl_entries T))"

definition tables_inv :: "'j tables \<Rightarrow> sequences \<Rightarrow> bool" where
  "tables_inv T q \<longleftrightarrow>
     accounts_wf (tbl_accounts T) q \<and> transactions_wf (tbl_transactions T) q
     \<and> entries_wf (tbl_entries T) q \<and> references_ok T \<and> txns_balanced T \<and> balances_ok T"

definition ledger_inv :: "'j server \<Rightarrow> bool" where
  "ledger_inv s \<longleftrightarrow> tables_inv (srv_db s) (srv_seqs s)"

text \<open>The cache mirrors the materialised balances of exactly the accounts of the database.\<close>

definition mirrors :: "BalanceCache \<Rightarrow> account_row list \<Rightarrow> bool" where
  "mirrors c as \<longleftrightarrow>
     cache_wf c
     \<and> (\<forall>i. cache_map c (AccountId i)
            = map_option (\<lambda>r. (ar_posted_balance r, ar_pending_balance r)) (find (\<lambda>r. ar_id r = i) as))"

definition cache_coherent :: "'j server \<Rightarrow> bool" where
  "cache_coherent s \<longleftrightarrow> mirrors (srv_cache s) (tbl_accounts (srv_db s))"

lemmas wf_defs = accounts_wf_def transactions_wf_def entries_wf_def references_ok_def

subsection \<open>Basic facts\<close>

lemma account_sum_append [simp]: "account_sum st a (es @ fs) = account_sum st a es + account_sum st a fs"
  by (simp add: account_sum_def)

lemma account_sum_Nil [simp]: "account_sum st a [] = 0"
  by (simp add: account_sum_def)

lemma account_sum_cong:
  "ar_id a = ar_id b \<Longrightarrow> ar_account_type a = ar_account_type b \<Longrightarrow> account_sum st a es = account_sum st b es"
  by (simp add: account_sum_def row_nb_def)

lemma account_sum_none:
  "(\<And>e. e \<in> set es \<Longrightarrow> er_account_id e \<noteq> ar_id a \<or> er_status e \<noteq> st) \<Longrightarrow> account_sum st a es = 0"
  by (induction es) (auto simp: account_sum_def)

lemma side_sum_append [simp]: "side_sum ty (es @ fs) = side_sum ty es + side_sum ty fs"
  by (simp add: side_sum_def)

lemma side_sum_Nil [simp]: "side_sum ty [] = 0"
  by (simp add: side_sum_def)

lemma side_sum_Cons [simp]:
  "side_sum ty (e # es) = (if row_et e = ty then sint (er_amount e) else 0) + side_sum ty es"
  by (simp add: side_sum_def)

lemma of_txn_append [simp]: "of_txn i (es @ fs) = of_txn i es @ of_txn i fs"
  by (simp add: of_txn_def)

lemma side_sum_nonneg: "(\<And>e. e \<in> set es \<Longrightarrow> 0 < sint (er_amount e)) \<Longrightarrow> 0 \<le> side_sum ty es"
  unfolding side_sum_def by (rule sum_list_nonneg_int) fastforce

lemma side_sum_filter_le:
  "(\<And>e. e \<in> set es \<Longrightarrow> 0 < sint (er_amount e)) \<Longrightarrow> side_sum ty (filter P es) \<le> side_sum ty es"
proof (induction es)
  case (Cons e es)
  then have "0 < sint (er_amount e)" and "side_sum ty (filter P es) \<le> side_sum ty es"
    by auto
  then show ?case by auto
qed simp

lemma sum_row_delta:
  "sum_list (map (row_delta NB_Debit) es) = side_sum ET_Debit es - side_sum ET_Credit es"
  "sum_list (map (row_delta NB_Credit) es) = side_sum ET_Credit es - side_sum ET_Debit es"
proof -
  show "sum_list (map (row_delta NB_Debit) es) = side_sum ET_Debit es - side_sum ET_Credit es"
    by (induction es) (auto simp: row_delta_def row_et_def)
  show "sum_list (map (row_delta NB_Credit) es) = side_sum ET_Credit es - side_sum ET_Debit es"
    by (induction es) (auto simp: row_delta_def row_et_def)
qed

text \<open>
  The net effect of any part of a transaction on an account fits an \<open>i64\<close>, because both
  sides of the whole transaction do.
\<close>

lemma net_effect_in_range:
  assumes "\<And>e. e \<in> set es \<Longrightarrow> 0 < sint (er_amount e)"
    and "side_sum ET_Debit es < 2 ^ 63" and "side_sum ET_Credit es < 2 ^ 63"
  shows "in_i64 (sum_list (map (row_delta nb) (filter P es)))"
    and "in_i64 (- sum_list (map (row_delta nb) (filter P es)))"
proof -
  have pos: "0 \<le> side_sum ty (filter P es)" for ty
    using assms(1) by (intro side_sum_nonneg) auto
  have le: "side_sum ty (filter P es) \<le> side_sum ty es" for ty
    using assms(1) by (rule side_sum_filter_le)
  show "in_i64 (sum_list (map (row_delta nb) (filter P es)))"
    using pos [of ET_Debit] pos [of ET_Credit] le [of ET_Debit] le [of ET_Credit] assms(2,3)
    by (cases nb) (auto simp: sum_row_delta in_i64_def)
  show "in_i64 (- sum_list (map (row_delta nb) (filter P es)))"
    using pos [of ET_Debit] pos [of ET_Credit] le [of ET_Debit] le [of ET_Credit] assms(2,3)
    by (cases nb) (auto simp: sum_row_delta in_i64_def)
qed

lemma tables_inv_seq_mono:
  assumes "tables_inv T q" and "seq_le q q'"
  shows "tables_inv T q'"
  using assms by (fastforce simp: tables_inv_def wf_defs seq_le_def)

lemma reference_account: "tables_inv T q \<Longrightarrow> e \<in> set (tbl_entries T) \<Longrightarrow> er_account_id e \<in> ar_id ` set (tbl_accounts T)"
  by (simp add: tables_inv_def references_ok_def)

lemma reference_txn:
  "tables_inv T q \<Longrightarrow> e \<in> set (tbl_entries T) \<Longrightarrow>
   \<exists>t \<in> set (tbl_transactions T). tr_id t = er_transaction_id e \<and> tr_status t = er_status e"
  by (simp add: tables_inv_def references_ok_def)

lemma entries_amount_pos: "entries_wf es q \<Longrightarrow> e \<in> set es \<Longrightarrow> 0 < sint (er_amount e)"
  by (simp add: entries_wf_def entry_row_ok_def)

lemma find_row_iff:
  assumes "distinct (map ar_id as)"
  shows "find (\<lambda>r. ar_id r = i) as = Some a \<longleftrightarrow> a \<in> set as \<and> ar_id a = i"
  using assms
proof (induction as)
  case (Cons b as)
  then show ?case by (auto simp: image_iff)
qed simp

lemma find_txn_iff:
  assumes "distinct (map tr_id ts)"
  shows "find (\<lambda>r. tr_id r = i) ts = Some t \<longleftrightarrow> t \<in> set ts \<and> tr_id t = i"
  using assms
proof (induction ts)
  case (Cons b ts)
  then show ?case by (auto simp: image_iff)
qed simp

lemma sorted_entries_id:
  assumes "entries_wf es q"
  shows "sort_key (\<lambda>r. sint (er_id r)) (filter P es) = filter P es"
proof (rule sort_key_id_if_sorted)
  have "sorted_wrt (<) (map (\<lambda>r. sint (er_id r)) (filter P es))"
    using assms by (simp add: entries_wf_def sorted_wrt_map sorted_wrt_filter)
  then show "sorted (map (\<lambda>r. sint (er_id r)) (filter P es))"
    by (rule strict_sorted_imp_sorted)
qed

end
