(* ===== verification/Effects.thy ===== *)
theory Effects
  imports Invariant
begin

section \<open>Effects of the ledger operations on the tables\<close>

text \<open>
  The handlers build a list of balance updates, one per account, from the legs or entries
  of a transaction; the database adds them to the account rows. Here is what these lists
  are (\<open>updates_for\<close>, over the mathematical integers), that the three accumulation loops
  of the source compute them, and that each of the three effects on the tables, an
  authorisation, a capture and a void, keeps the invariant.
\<close>

subsection \<open>The accumulation loops\<close>

text \<open>One step of the three loops: add a pair of deltas to the entry of an account.\<close>

fun upsert :: "(AccountId \<times> i64 \<times> i64) list \<Rightarrow> AccountId \<Rightarrow> i64 \<Rightarrow> i64 \<Rightarrow> (AccountId \<times> i64 \<times> i64) list" where
  "upsert [] i dp dq = [(i, dp, dq)]"
| "upsert ((j, p, q) # us) i dp dq =
     (if j = i then (j, p + dp, q + dq) # us else (j, p, q) # upsert us i dp dq)"

lemma add_pending_upsert: "add_pending us i d = upsert us i 0 d"
  by (induction us i d rule: add_pending.induct) auto

lemma move_to_posted_upsert: "move_to_posted us i d = upsert us i d (- d)"
  by (induction us i d rule: move_to_posted.induct) auto

lemma remove_pending_upsert: "remove_pending us i d = upsert us i 0 (- d)"
  by (induction us i d rule: remove_pending.induct) auto

lemma map_of_upsert:
  "map_of (upsert us i dp dq) =
     (map_of us)(i \<mapsto> (case map_of us i of None \<Rightarrow> (dp, dq) | Some (p, q) \<Rightarrow> (p + dp, q + dq)))"
  by (induction us i dp dq rule: upsert.induct) (auto simp: fun_eq_iff)

lemma fst_upsert: "set (map fst (upsert us i dp dq)) = insert i (set (map fst us))"
  by (induction us i dp dq rule: upsert.induct) auto

lemma distinct_upsert: "distinct (map fst us) \<Longrightarrow> distinct (map fst (upsert us i dp dq))"
proof (induction us i dp dq rule: upsert.induct)
  case (2 j p q us i dp dq)
  then show ?case using fst_upsert [of us i dp dq] by auto
qed simp

text \<open>What moves: an account, a side and an amount.\<close>

type_synonym item = "AccountId \<times> EntryType \<times> Amount"

fun item_delta :: "NormalBalance \<Rightarrow> item \<Rightarrow> int" where
  "item_delta nb (i, ty, am) = signed_amount nb ty (sint (amount_value am))"

definition item_sum :: "NormalBalance \<Rightarrow> AccountId \<Rightarrow> item list \<Rightarrow> int" where
  "item_sum nb i xs = sum_list (map (item_delta nb) (filter (\<lambda>x. fst x = i) xs))"

text \<open>
  The updates for a list of items: each account once, with its sum times the coefficient
  for the posted and for the pending balance.
\<close>

definition updates_for ::
    "int \<Rightarrow> int \<Rightarrow> (AccountId \<Rightarrow> NormalBalance) \<Rightarrow> item list \<Rightarrow> (AccountId \<times> i64 \<times> i64) list \<Rightarrow> bool" where
  "updates_for cp cq nbf xs us \<longleftrightarrow>
     distinct (map fst us)
     \<and> (\<forall>i. map_of us i =
           (if i \<in> fst ` set xs
            then Some (of_int (cp * item_sum (nbf i) i xs), of_int (cq * item_sum (nbf i) i xs))
            else None))"

lemma item_sum_Nil [simp]: "item_sum nb i [] = 0"
  by (simp add: item_sum_def)

lemma item_sum_snoc:
  "item_sum nb i (xs @ [x]) = item_sum nb i xs + (if fst x = i then item_delta nb x else 0)"
  by (simp add: item_sum_def)

lemma item_sum_absent: "i \<notin> fst ` set xs \<Longrightarrow> item_sum nb i xs = 0"
  by (induction xs) (auto simp: item_sum_def)

lemma of_int_compute_balance_delta:
  "compute_balance_delta nb ty am = of_int (item_delta nb (i, ty, am))"
  by (cases nb; cases ty) simp_all

lemma updates_for_Nil [simp]: "updates_for cp cq nbf [] []"
  by (simp add: updates_for_def)

lemma updates_for_snoc:
  assumes "updates_for cp cq nbf xs us" and "i = fst x" and "d = item_delta (nbf i) x"
  shows "updates_for cp cq nbf (xs @ [x]) (upsert us i (of_int (cp * d)) (of_int (cq * d)))"
  using assms
  by (auto simp: updates_for_def distinct_upsert map_of_upsert item_sum_snoc item_sum_absent
      distrib_left image_iff)

subsection \<open>Adding the updates to the account rows\<close>

definition bump_row :: "(AccountId \<times> i64 \<times> i64) list \<Rightarrow> account_row \<Rightarrow> account_row" where
  "bump_row us r =
     (case map_of us (AccountId (ar_id r)) of
        None \<Rightarrow> r
      | Some (dp, dq) \<Rightarrow> r\<lparr>ar_posted_balance := ar_posted_balance r + dp,
                          ar_pending_balance := ar_pending_balance r + dq,
                          ar_version := ar_version r + 1\<rparr>)"

text \<open>The additions the database performs without an error.\<close>

definition bump_ok :: "(AccountId \<times> i64 \<times> i64) list \<Rightarrow> account_row \<Rightarrow> bool" where
  "bump_ok us r \<longleftrightarrow>
     (case map_of us (AccountId (ar_id r)) of
        None \<Rightarrow> True
      | Some (dp, dq) \<Rightarrow>
          in_i64 (sint (ar_posted_balance r) + sint dp) \<and> in_i64 (sint (ar_pending_balance r) + sint dq)
          \<and> in_i32 (sint (ar_version r) + 1))"

lemma bump_row_fields [simp]:
  "ar_id (bump_row us r) = ar_id r" "ar_account_type (bump_row us r) = ar_account_type r"
  "ar_asset_code (bump_row us r) = ar_asset_code r" "ar_asset_scale (bump_row us r) = ar_asset_scale r"
  "ar_created_at (bump_row us r) = ar_created_at r"
  by (simp_all add: bump_row_def split: option.split)

lemma bump_row_version:
  "bump_ok us r \<Longrightarrow> 0 \<le> sint (ar_version r) \<Longrightarrow> 0 \<le> sint (ar_version (bump_row us r))"
  by (auto simp: bump_row_def bump_ok_def sint_add_exact_i32 split: option.splits)

lemma account_sum_bump_row [simp]: "account_sum st (bump_row us a) es = account_sum st a es"
  by (rule account_sum_cong) simp_all

lemma accounts_wf_bump:
  assumes "accounts_wf as q" and "\<And>a. a \<in> set as \<Longrightarrow> bump_ok us a"
  shows "accounts_wf (map (bump_row us) as) q"
  using assms by (auto simp: accounts_wf_def account_row_ok_def bump_row_version comp_def)

text \<open>The items and the net change of an account that a list of entry rows stands for.\<close>

definition row_item :: "entry_row \<Rightarrow> item" where
  "row_item r = (AccountId (er_account_id r), row_et r, Amount (er_amount r))"

definition net :: "account_row \<Rightarrow> entry_row list \<Rightarrow> int" where
  "net a rs = sum_list (map (row_delta (row_nb a)) (filter (\<lambda>r. er_account_id r = ar_id a) rs))"

lemma item_sum_rows: "item_sum (row_nb a) (AccountId (ar_id a)) (map row_item rs) = net a rs"
  by (induction rs) (auto simp: item_sum_def net_def row_item_def row_delta_def)

lemma bump_row_balances:
  assumes "updates_for cp cq nbf (map row_item rs) us" and "bump_ok us a"
    and "nbf (AccountId (ar_id a)) = row_nb a"
    and "in_i64 (cp * net a rs)" and "in_i64 (cq * net a rs)"
  shows "sint (ar_posted_balance (bump_row us a)) = sint (ar_posted_balance a) + cp * net a rs"
    and "sint (ar_pending_balance (bump_row us a)) = sint (ar_pending_balance a) + cq * net a rs"
proof -
  let ?i = "AccountId (ar_id a)"
  obtain x y where x: "x = cp * net a rs" and y: "y = cq * net a rs" by simp
  have us: "map_of us ?i = (if ?i \<in> fst ` set (map row_item rs) then Some (of_int x, of_int y) else None)"
    using assms(1,3) by (simp add: updates_for_def item_sum_rows x y)
  have none: "x = 0 \<and> y = 0" if "?i \<notin> fst ` set (map row_item rs)"
    using item_sum_absent [OF that, of "row_nb a"] by (simp only: item_sum_rows x y) simp
  have "sint (ar_posted_balance (bump_row us a)) = sint (ar_posted_balance a) + x
      \<and> sint (ar_pending_balance (bump_row us a)) = sint (ar_pending_balance a) + y"
    using us none assms(2,4,5) unfolding x [symmetric] y [symmetric]
    by (auto simp: bump_row_def bump_ok_def i64_arith split: if_splits)
  then show "sint (ar_posted_balance (bump_row us a)) = sint (ar_posted_balance a) + cp * net a rs"
    and "sint (ar_pending_balance (bump_row us a)) = sint (ar_pending_balance a) + cq * net a rs"
    by (simp_all add: x y)
qed

lemma net_bump_row [simp]: "net (bump_row us a) rs = net a rs"
  by (simp add: net_def row_nb_def)

lemma account_sum_status:
  assumes "\<And>r. r \<in> set rs \<Longrightarrow> er_status r = st'"
  shows "account_sum st a rs = (if st = st' then net a rs else 0)"
  using assms by (induction rs) (auto simp: account_sum_def net_def)

lemma net_in_range:
  assumes "\<And>r. r \<in> set rs \<Longrightarrow> 0 < sint (er_amount r)"
    and "side_sum ET_Debit rs = side_sum ET_Credit rs" and "side_sum ET_Debit rs < 2 ^ 63"
  shows "in_i64 (net a rs)" and "in_i64 (- net a rs)"
  using net_effect_in_range [of rs] assms by (simp_all add: net_def)

subsection \<open>New accounts\<close>

lemma add_account_inv:
  assumes "tables_inv T q" and "seq_le q q'" and "account_row_ok a"
    and "ar_id a \<notin> ar_id ` set (tbl_accounts T)" and "sint (ar_id a) < int (accounts_id_seq q')"
    and "ar_posted_balance a = 0" and "ar_pending_balance a = 0"
  shows "tables_inv (T\<lparr>tbl_accounts := tbl_accounts T @ [a]\<rparr>) q'"
proof -
  have inv: "tables_inv T q'" using assms(1,2) by (rule tables_inv_seq_mono)
  have "er_account_id e \<noteq> ar_id a" if "e \<in> set (tbl_entries T)" for e
    using reference_account [OF inv that] assms(4) by auto
  then have "account_sum st a (tbl_entries T) = 0" for st
    by (intro account_sum_none) auto
  with inv assms show ?thesis
    by (auto simp: tables_inv_def wf_defs txns_balanced_def balances_ok_def)
qed

subsection \<open>Authorisation\<close>

text \<open>
  A new pending transaction with balanced entry rows on existing accounts, and the updates
  of the pending balances.
\<close>

definition authorized ::
    "'j tables \<Rightarrow> 'j transaction_row \<Rightarrow> entry_row list \<Rightarrow> (AccountId \<times> i64 \<times> i64) list \<Rightarrow> 'j tables" where
  "authorized T t rs us =
     \<lparr> tbl_accounts = map (bump_row us) (tbl_accounts T), tbl_transactions = tbl_transactions T @ [t],
       tbl_entries = tbl_entries T @ rs \<rparr>"

definition new_transaction_ok :: "'j tables \<Rightarrow> sequences \<Rightarrow> 'j transaction_row \<Rightarrow> bool" where
  "new_transaction_ok T q t \<longleftrightarrow>
     transaction_row_ok t \<and> tr_status t = 1 \<and> tr_id t \<notin> tr_id ` set (tbl_transactions T)
     \<and> tr_idempotency_key t \<notin> tr_idempotency_key ` set (tbl_transactions T)
     \<and> sint (tr_id t) < int (transactions_id_seq q)"

definition new_entries_ok :: "'j tables \<Rightarrow> sequences \<Rightarrow> i64 \<Rightarrow> entry_row list \<Rightarrow> bool" where
  "new_entries_ok T q tid rs \<longleftrightarrow>
     entries_wf (tbl_entries T @ rs) q
     \<and> (\<forall>r \<in> set rs. er_transaction_id r = tid \<and> er_status r = 1
          \<and> er_account_id r \<in> ar_id ` set (tbl_accounts T))"

lemma of_txn_none: "(\<And>r. r \<in> set rs \<Longrightarrow> er_transaction_id r \<noteq> tid) \<Longrightarrow> of_txn tid rs = []"
  by (simp add: of_txn_def filter_empty_conv)

lemma of_txn_all: "(\<And>r. r \<in> set rs \<Longrightarrow> er_transaction_id r = tid) \<Longrightarrow> of_txn tid rs = rs"
  by (simp add: of_txn_def)

lemma authorized_txns_balanced:
  assumes "tables_inv T q" and "new_transaction_ok T q' t" and "new_entries_ok T q' (tr_id t) rs"
    and "side_sum ET_Debit rs = side_sum ET_Credit rs" and "side_sum ET_Debit rs < 2 ^ 63"
  shows "txns_balanced (authorized T t rs us)"
proof -
  have old: "of_txn (tr_id t) (tbl_entries T) = []"
  proof (rule of_txn_none)
    fix r assume "r \<in> set (tbl_entries T)"
    from reference_txn [OF assms(1) this] show "er_transaction_id r \<noteq> tr_id t"
      using assms(2) by (auto simp: new_transaction_ok_def image_iff)
  qed
  have rs: "of_txn (tr_id t) rs = rs"
    using assms(3) by (intro of_txn_all) (simp add: new_entries_ok_def)
  have new: "of_txn (tr_id t') rs = []" if "t' \<in> set (tbl_transactions T)" for t'
    using that assms(2,3) by (intro of_txn_none) (force simp: new_transaction_ok_def new_entries_ok_def)
  show ?thesis
    using assms(1,4,5) old rs new by (auto simp: txns_balanced_def authorized_def tables_inv_def)
qed

lemma authorized_inv:
  assumes inv: "tables_inv T q" and "seq_le q q'" and t: "new_transaction_ok T q' t"
    and rs: "new_entries_ok T q' (tr_id t) rs"
    and bal: "side_sum ET_Debit rs = side_sum ET_Credit rs" "side_sum ET_Debit rs < 2 ^ 63"
    and us: "updates_for 0 1 nbf (map row_item rs) us"
    and ok: "\<And>a. a \<in> set (tbl_accounts T) \<Longrightarrow> bump_ok us a \<and> nbf (AccountId (ar_id a)) = row_nb a"
  shows "tables_inv (authorized T t rs us) q'"
proof -
  have inv': "tables_inv T q'" using inv assms(2) by (rule tables_inv_seq_mono)
  have range: "in_i64 (net a rs)" for a
    using net_in_range(1) bal rs by (auto simp: new_entries_ok_def entries_wf_def entry_row_ok_def)
  have sums: "account_sum st a rs = (if st = 1 then net a rs else 0)" for st a
    using rs by (intro account_sum_status) (auto simp: new_entries_ok_def)
  have "sint (ar_posted_balance (bump_row us a)) = account_sum 2 a (tbl_entries T)
      \<and> sint (ar_pending_balance (bump_row us a)) = account_sum 1 a (tbl_entries T) + net a rs"
    if "a \<in> set (tbl_accounts T)" for a
    using bump_row_balances [OF us, of a] ok [OF that] range [of a] inv that
    by (simp add: tables_inv_def balances_ok_def)
  then have "balances_ok (authorized T t rs us)"
    by (simp add: balances_ok_def authorized_def sums)
  moreover have "accounts_wf (map (bump_row us) (tbl_accounts T)) q'"
    using inv' ok by (intro accounts_wf_bump) (auto simp: tables_inv_def)
  moreover have "references_ok (authorized T t rs us)"
  proof -
    have "er_account_id e \<in> ar_id ` set (tbl_accounts T)
        \<and> (\<exists>u \<in> set (tbl_transactions T @ [t]). tr_id u = er_transaction_id e \<and> tr_status u = er_status e)"
      if "e \<in> set (tbl_entries T @ rs)" for e
      using that reference_account [OF inv, of e] reference_txn [OF inv, of e] t rs
      by (auto simp: new_entries_ok_def new_transaction_ok_def)
    then show ?thesis by (simp add: references_ok_def authorized_def image_image)
  qed
  ultimately show ?thesis
    using authorized_txns_balanced [OF inv t rs bal] inv' t rs
    by (auto simp: tables_inv_def authorized_def transactions_wf_def new_transaction_ok_def new_entries_ok_def)
qed

subsection \<open>Capture and void\<close>

text \<open>The transaction and its entries move to a terminal state.\<close>

definition settle_row :: "i64 \<Rightarrow> i16 \<Rightarrow> i64 option \<Rightarrow> 'j transaction_row \<Rightarrow> 'j transaction_row" where
  "settle_row tid st pa t = (if tr_id t = tid then t\<lparr>tr_status := st, tr_posted_at := pa\<rparr> else t)"

definition settle_entry :: "i64 \<Rightarrow> i16 \<Rightarrow> entry_row \<Rightarrow> entry_row" where
  "settle_entry tid st e = (if er_transaction_id e = tid then e\<lparr>er_status := st\<rparr> else e)"

definition settled ::
    "'j tables \<Rightarrow> i64 \<Rightarrow> i16 \<Rightarrow> i64 option \<Rightarrow> (AccountId \<times> i64 \<times> i64) list \<Rightarrow> 'j tables" where
  "settled T tid st pa us =
     \<lparr> tbl_accounts = map (bump_row us) (tbl_accounts T),
       tbl_transactions = map (settle_row tid st pa) (tbl_transactions T),
       tbl_entries = map (settle_entry tid st) (tbl_entries T) \<rparr>"

text \<open>
  A terminal state, its \<open>posted_at\<close>, and the coefficients of the posted and the pending
  balance: a capture moves the sums from pending to posted, a void removes them.
\<close>

definition terminal :: "i16 \<Rightarrow> i64 option \<Rightarrow> int \<Rightarrow> int \<Rightarrow> bool" where
  "terminal st pa cp cq \<longleftrightarrow>
     cq = -1 \<and> (case pa of None \<Rightarrow> st = 3 \<and> cp = 0 | Some p \<Rightarrow> st = 2 \<and> cp = 1 \<and> 0 < sint p)"

lemma settle_row_fields [simp]:
  "tr_id (settle_row tid st pa t) = tr_id t"
  "tr_idempotency_key (settle_row tid st pa t) = tr_idempotency_key t"
  by (simp_all add: settle_row_def)

lemma settle_entry_fields [simp]:
  "er_id (settle_entry tid st e) = er_id e"
  "er_transaction_id (settle_entry tid st e) = er_transaction_id e"
  "er_account_id (settle_entry tid st e) = er_account_id e"
  "er_amount (settle_entry tid st e) = er_amount e"
  "row_et (settle_entry tid st e) = row_et e"
  by (simp_all add: settle_entry_def row_et_def)

lemma side_sum_settle [simp]:
  "side_sum ty (of_txn i (map (settle_entry tid st) es)) = side_sum ty (of_txn i es)"
  by (induction es) (auto simp: of_txn_def)

lemma account_sum_split:
  "account_sum st a es =
     account_sum st a (filter (\<lambda>e. er_transaction_id e \<noteq> tid) es) + account_sum st a (of_txn tid es)"
  by (induction es) (auto simp: account_sum_def of_txn_def)

lemma account_sum_settle:
  "account_sum st' a (map (settle_entry tid st) es) =
     account_sum st' a (filter (\<lambda>e. er_transaction_id e \<noteq> tid) es)
     + (if st' = st then net a (of_txn tid es) else 0)"
  by (induction es) (auto simp: account_sum_def of_txn_def net_def settle_entry_def row_delta_def row_et_def)

text \<open>The change of the two sums when a pending transaction becomes terminal.\<close>

lemma account_sums_settled:
  assumes "\<And>e. e \<in> set (of_txn tid es) \<Longrightarrow> er_status e = 1" and "terminal st pa cp cq"
  shows "account_sum 2 a (map (settle_entry tid st) es) = account_sum 2 a es + cp * net a (of_txn tid es)"
    and "account_sum 1 a (map (settle_entry tid st) es) = account_sum 1 a es + cq * net a (of_txn tid es)"
  using account_sum_split [of 2 a es tid] account_sum_split [of 1 a es tid] assms
    account_sum_status [of "of_txn tid es" 1]
  by (auto simp: account_sum_settle terminal_def split: option.splits)

lemma transactions_wf_settled:
  assumes "transactions_wf ts q" and "terminal st pa cp cq"
  shows "transactions_wf (map (settle_row tid st pa) ts) q"
proof -
  have "transaction_row_ok (settle_row tid st pa t)" if "transaction_row_ok t" for t
    using that assms(2) by (auto simp: transaction_row_ok_def settle_row_def terminal_def split: option.splits)
  with assms(1) show ?thesis by (auto simp: transactions_wf_def comp_def)
qed

lemma entries_wf_settled:
  assumes "entries_wf es q" and "terminal st pa cp cq"
  shows "entries_wf (map (settle_entry tid st) es) q"
proof -
  have "entry_row_ok (settle_entry tid st e)" if "entry_row_ok e" for e
    using that assms(2) by (auto simp: entry_row_ok_def settle_entry_def terminal_def split: option.splits)
  with assms(1) show ?thesis by (auto simp: entries_wf_def comp_def)
qed

lemma references_ok_settled:
  assumes "references_ok T"
  shows "references_ok (settled T tid st pa us)"
proof -
  have "er_account_id e \<in> ar_id ` set (tbl_accounts T)
      \<and> (\<exists>t \<in> set (tbl_transactions T). tr_id t = er_transaction_id e
            \<and> tr_status (settle_row tid st pa t) = er_status (settle_entry tid st e))"
    if e: "e \<in> set (tbl_entries T)" for e
  proof -
    from assms e obtain t where "er_account_id e \<in> ar_id ` set (tbl_accounts T)"
      and "t \<in> set (tbl_transactions T)" and "tr_id t = er_transaction_id e" and "tr_status t = er_status e"
      unfolding references_ok_def by blast
    then show ?thesis by (auto simp: settle_row_def settle_entry_def intro!: bexI [of _ t])
  qed
  then show ?thesis by (simp add: references_ok_def settled_def image_image)
qed

lemma pending_entries:
  assumes "tables_inv T q" and "t \<in> set (tbl_transactions T)" and "e \<in> set (of_txn (tr_id t) (tbl_entries T))"
  shows "er_status e = tr_status t"
proof -
  from assms(3) have "e \<in> set (tbl_entries T)" and "er_transaction_id e = tr_id t"
    by (simp_all add: of_txn_def)
  with reference_txn [OF assms(1)] obtain u where "u \<in> set (tbl_transactions T)"
    and "tr_id u = tr_id t" and "tr_status u = er_status e" by metis
  moreover have "distinct (map tr_id (tbl_transactions T))"
    using assms(1) by (simp add: tables_inv_def transactions_wf_def)
  ultimately have "u = t" using assms(2) by (intro distinct_map_eq [of tr_id])
  with \<open>tr_status u = er_status e\<close> show ?thesis by simp
qed

lemma settled_inv:
  assumes inv: "tables_inv T q" and "seq_le q q'"
    and t: "t \<in> set (tbl_transactions T)" "tr_status t = 1" and st: "terminal st pa cp cq"
    and us: "updates_for cp cq nbf (map row_item (of_txn (tr_id t) (tbl_entries T))) us"
    and ok: "\<And>a. a \<in> set (tbl_accounts T) \<Longrightarrow> bump_ok us a \<and> nbf (AccountId (ar_id a)) = row_nb a"
  shows "tables_inv (settled T (tr_id t) st pa us) q'"
proof -
  have inv': "tables_inv T q'" using inv assms(2) by (rule tables_inv_seq_mono)
  let ?rs = "of_txn (tr_id t) (tbl_entries T)"
  have "in_i64 (net a ?rs) \<and> in_i64 (- net a ?rs)" for a
    using net_in_range [of ?rs a] inv t
    by (auto simp: tables_inv_def txns_balanced_def of_txn_def entries_wf_def entry_row_ok_def)
  then have range: "in_i64 (cp * net a ?rs)" "in_i64 (cq * net a ?rs)" for a
    using st by (auto simp: terminal_def split: option.splits)
  have sums: "account_sum 2 a (map (settle_entry (tr_id t) st) (tbl_entries T))
        = account_sum 2 a (tbl_entries T) + cp * net a ?rs"
    "account_sum 1 a (map (settle_entry (tr_id t) st) (tbl_entries T))
        = account_sum 1 a (tbl_entries T) + cq * net a ?rs" for a
    using account_sums_settled [OF _ st] pending_entries [OF inv t(1)] t(2) by simp_all
  have "sint (ar_posted_balance (bump_row us a)) = account_sum 2 a (tbl_entries T) + cp * net a ?rs
      \<and> sint (ar_pending_balance (bump_row us a)) = account_sum 1 a (tbl_entries T) + cq * net a ?rs"
    if "a \<in> set (tbl_accounts T)" for a
    using bump_row_balances [OF us, of a] ok [OF that] range [of a] inv that
    by (simp add: tables_inv_def balances_ok_def)
  then have "balances_ok (settled T (tr_id t) st pa us)"
    by (simp add: balances_ok_def settled_def sums)
  moreover have "txns_balanced (settled T (tr_id t) st pa us)"
    using inv by (auto simp: tables_inv_def txns_balanced_def settled_def)
  moreover have "accounts_wf (map (bump_row us) (tbl_accounts T)) q'"
    using inv' ok by (intro accounts_wf_bump) (simp_all add: tables_inv_def)
  moreover have "transactions_wf (map (settle_row (tr_id t) st pa) (tbl_transactions T)) q'"
    using inv' by (intro transactions_wf_settled [OF _ st]) (simp add: tables_inv_def)
  moreover have "entries_wf (map (settle_entry (tr_id t) st) (tbl_entries T)) q'"
    using inv' by (intro entries_wf_settled [OF _ st]) (simp add: tables_inv_def)
  moreover have "references_ok (settled T (tr_id t) st pa us)"
    using inv by (intro references_ok_settled) (simp add: tables_inv_def)
  ultimately show ?thesis
    by (simp add: tables_inv_def) (simp add: settled_def)
qed

end
