(* ===== verification/StorageSpec.thy ===== *)
theory StorageSpec
  imports Effects
begin

section \<open>The storage methods inside a handler's transaction\<close>

text \<open>
  One triple per storage method, over the tables the transaction sees. All of them hold for
  every list of faults: an error leaves the committed tables and the cache as they were, and
  is never a panic.
\<close>

subsection \<open>Rules\<close>

abbreviation reading :: "'j tables \<Rightarrow> BalanceCache \<Rightarrow> bool \<Rightarrow> sequences \<Rightarrow> 'j server \<Rightarrow> bool" where
  "reading D C L q0 \<equiv> tx_in D C L (\<lambda>V q. V = D \<and> q = q0)"

text \<open>A handler gives up: it did not panic, and nothing was committed.\<close>

definition gives_up :: "'j tables \<Rightarrow> BalanceCache \<Rightarrow> sequences \<Rightarrow> abort \<Rightarrow> 'j server \<Rightarrow> bool" where
  "gives_up D C q0 e s \<longleftrightarrow> e \<noteq> Panic \<and> untouched D C q0 s"

lemma triple_ex: "(\<And>x. triple (P x) m Q E) \<Longrightarrow> triple (\<lambda>s. \<exists>x. P x s) m Q E"
  by (rule tripleI) (blast dest: triple_OkD triple_ErrD)+

lemma triple_False: "triple (\<lambda>s. False) m Q E"
  by (simp add: triple_def)

lemma service_error_not_Panic [simp]: "service_error e \<noteq> Panic"
  by (simp add: service_error_def)

lemma triple_svc:
  assumes "triple P m Q (\<lambda>e. untouched D C q0)"
  shows "triple P (svc env m) Q (gives_up D C q0)"
  unfolding svc_def
  by (rule triple_pmap_map_err, rule triple_weaken [OF assms]) (simp_all add: gives_up_def)

lemma tx_in_untouched: "tx_in D C L P s \<Longrightarrow> (\<And>V q. P V q \<Longrightarrow> seq_le q0 q) \<Longrightarrow> untouched D C q0 s"
  by (auto simp: tx_in_def untouched_def)

lemma reading_untouched [simp, intro]: "reading D C L q0 s \<Longrightarrow> untouched D C q0 s"
  by (erule tx_in_untouched) auto

lemma tx_in_pure: "tx_in D C L (\<lambda>V q. b \<and> P V q) s \<longleftrightarrow> b \<and> tx_in D C L P s"
  by (auto simp: tx_in_def)

lemma tx_in_ex: "tx_in D C L (\<lambda>V q. \<exists>x. P x V q) s \<longleftrightarrow> (\<exists>x. tx_in D C L (P x) s)"
  by (auto simp: tx_in_def)

lemma tx_in_mono: "tx_in D C L P s \<Longrightarrow> (\<And>V q. P V q \<Longrightarrow> Q V q) \<Longrightarrow> tx_in D C L Q s"
  by (auto simp: tx_in_def)

text \<open>A failed \<open>ok_or\<close> or conversion between two statements.\<close>

lemma triple_attempt_tx:
  assumes "\<And>x. r = Ok x \<Longrightarrow> triple (tx_in D C L P) (k x) Q E"
    and "\<And>V q. P V q \<Longrightarrow> seq_le q0 q" and "\<And>e. r = Err e \<Longrightarrow> e \<noteq> Panic"
    and "\<And>e s. gives_up D C q0 e s \<Longrightarrow> E e s"
  shows "triple (tx_in D C L P) (attempt r k) Q E"
proof (rule triple_attempt)
  show "triple (tx_in D C L P) (k x) Q E" if "r = Ok x" for x using assms(1) that .
  show "E e s" if "tx_in D C L P s" and "r = Err e" for e s
    using assms(4) [of e s] tx_in_untouched [OF that(1) assms(2)] assms(3) that(2)
    by (simp add: gives_up_def)
qed

lemma triple_select:
  assumes "\<And>V q. P V q \<Longrightarrow> seq_le q0 q"
  shows "triple (tx_in D C L P) (query l (select f)) (\<lambda>x. tx_in D C L (\<lambda>V q. x = f V \<and> P V q)) (\<lambda>e. untouched D C q0)"
  by (rule triple_query) (auto simp: select_def assms)

lemma triple_select_reading:
  "triple (reading D C L q0) (query l (select f)) (\<lambda>x s. x = f D \<and> reading D C L q0 s) (\<lambda>e. untouched D C q0)"
  by (rule triple_weaken [OF triple_select [where P = "\<lambda>V q. V = D \<and> q = q0"]]) (auto simp: tx_in_def)

subsection \<open>Reading rows\<close>

lemma account_of_row_Ok:
  assumes "account_of_row r = Ok a"
  shows "a_id a = AccountId (ar_id r)" and "a_version a = scast (ar_version r)"
    and "Account_normal_balance a = row_nb r"
    and "account_type_to_i16 (a_account_type a) = ar_account_type r"
    and "a_asset_code a = ar_asset_code r" and "a_asset_scale a = ucast (ar_asset_scale r)"
    and "a_created_at a = ar_created_at r"
  using assms
  by (auto simp: account_of_row_def build_account_def result_simps AccountId_from_raw_def
      Account_normal_balance_def row_nb_def i16_to_account_type_def dest!: Account_new_Ok split: if_splits)

lemma entry_of_row_Ok:
  assumes "entry_of_row r = Ok e"
  shows "(e_account_id e, e_entry_type e, e_amount e) = row_item r"
    and "e_id e = EntryId (er_id r)" and "e_transaction_id e = TransactionId (er_transaction_id r)"
    and "entry_status_to_i16 (e_status e) = er_status r" and "e_created_at e = er_created_at r"
  using assms
  by (auto simp: entry_of_row_def build_entry_def result_simps row_item_def row_et_def
      AccountId_from_raw_def Amount_from_raw_def EntryId_from_raw_def TransactionId_from_raw_def
      i16_to_entry_type_def i16_to_entry_status_def dest!: Entry_new_Ok split: if_splits)

lemma transaction_of_row_Ok:
  assumes "transaction_of_row r = Ok t"
  shows "t_id t = TransactionId (tr_id r)" and "t_idempotency_key t = tr_idempotency_key r"
    and "transaction_status_to_i16 (t_status t) = tr_status r" and "t_metadata t = tr_metadata r"
    and "t_created_at t = tr_created_at r"
    and "t_posted_at t = (case tr_posted_at r of None \<Rightarrow> 0 | Some p \<Rightarrow> p)"
  using assms
  by (auto simp: transaction_of_row_def build_transaction_def result_simps TransactionId_from_raw_def
      i16_to_transaction_status_def dest!: Transaction_new_Ok split: if_splits)

lemma triple_fetch_account:
  "triple (reading D C L q0) (fetch_account l i)
     (\<lambda>x s. (case find (\<lambda>r. ar_id r = account_id_value i) (tbl_accounts D) of
               None \<Rightarrow> x = None | Some r \<Rightarrow> (\<exists>a. account_of_row r = Ok a \<and> x = Some a)) \<and> reading D C L q0 s)
     (\<lambda>e. untouched D C q0)"
  unfolding fetch_account_def
proof (rule triple_await [OF triple_select_reading], rule triple_pre_pure)
  fix row assume row: "row = find (\<lambda>r. ar_id r = account_id_value i) (tbl_accounts D)"
  show "triple (reading D C L q0)
     (case row of Some r \<Rightarrow> attempt (account_of_row r) (\<lambda>account. Done (Ok (Some account))) | None \<Rightarrow> Done (Ok None))
     (\<lambda>x s. (case find (\<lambda>r. ar_id r = account_id_value i) (tbl_accounts D) of
               None \<Rightarrow> x = None | Some r \<Rightarrow> (\<exists>a. account_of_row r = Ok a \<and> x = Some a)) \<and> reading D C L q0 s)
     (\<lambda>e. untouched D C q0)"
    by (cases row) (auto simp: row [symmetric] intro!: triple_attempt triple_Done_Ok)
qed

lemma triple_get_transaction:
  "triple (reading D C L q0) (get_transaction i)
     (\<lambda>x s. (case find (\<lambda>r. tr_id r = transaction_id_value i) (tbl_transactions D) of
               None \<Rightarrow> x = None | Some r \<Rightarrow> (\<exists>t. transaction_of_row r = Ok t \<and> x = Some t)) \<and> reading D C L q0 s)
     (\<lambda>e. untouched D C q0)"
  unfolding get_transaction_def
proof (rule triple_await [OF triple_select_reading], rule triple_pre_pure)
  fix row assume row: "row = find (\<lambda>r. tr_id r = transaction_id_value i) (tbl_transactions D)"
  show "triple (reading D C L q0)
     (case row of Some r \<Rightarrow> attempt (transaction_of_row r) (\<lambda>txn. Done (Ok (Some txn))) | None \<Rightarrow> Done (Ok None))
     (\<lambda>x s. (case find (\<lambda>r. tr_id r = transaction_id_value i) (tbl_transactions D) of
               None \<Rightarrow> x = None | Some r \<Rightarrow> (\<exists>t. transaction_of_row r = Ok t \<and> x = Some t)) \<and> reading D C L q0 s)
     (\<lambda>e. untouched D C q0)"
    by (cases row) (auto simp: row [symmetric] intro!: triple_attempt triple_Done_Ok)
qed

lemma triple_find_transaction_by_key:
  "triple (reading D C L q0) (find_transaction_by_key key)
     (\<lambda>x s. (case find (\<lambda>r. tr_idempotency_key r = key) (tbl_transactions D) of
               None \<Rightarrow> x = None | Some r \<Rightarrow> (\<exists>t. transaction_of_row r = Ok t \<and> x = Some t)) \<and> reading D C L q0 s)
     (\<lambda>e. untouched D C q0)"
  unfolding find_transaction_by_key_def
proof (rule triple_await [OF triple_select_reading], rule triple_pre_pure)
  fix row assume row: "row = find (\<lambda>r. tr_idempotency_key r = key) (tbl_transactions D)"
  show "triple (reading D C L q0)
     (case row of Some r \<Rightarrow> attempt (transaction_of_row r) (\<lambda>txn. Done (Ok (Some txn))) | None \<Rightarrow> Done (Ok None))
     (\<lambda>x s. (case find (\<lambda>r. tr_idempotency_key r = key) (tbl_transactions D) of
               None \<Rightarrow> x = None | Some r \<Rightarrow> (\<exists>t. transaction_of_row r = Ok t \<and> x = Some t)) \<and> reading D C L q0 s)
     (\<lambda>e. untouched D C q0)"
    by (cases row) (auto simp: row [symmetric] intro!: triple_attempt triple_Done_Ok)
qed

lemma triple_read_entries:
  "triple (reading D C L q0)
     (await (query l (select (\<lambda>t. sort_key (\<lambda>r. sint (er_id r)) (filter P (tbl_entries t)))))
       (\<lambda>rows. attempt (map_result entry_of_row rows) (\<lambda>es. Done (Ok es))))
     (\<lambda>es s. list_all2 (\<lambda>r e. entry_of_row r = Ok e) (sort_key (\<lambda>r. sint (er_id r)) (filter P (tbl_entries D))) es
        \<and> reading D C L q0 s)
     (\<lambda>e. untouched D C q0)"
  by (rule triple_await [OF triple_select_reading], rule triple_pre_pure, rule triple_attempt)
    (auto simp: map_result_eq_Ok_iff intro!: triple_Done_Ok)

lemma triple_get_entries_for_transaction:
  assumes "tables_inv D q"
  shows "triple (reading D C L q0) (get_entries_for_transaction i)
     (\<lambda>es s. list_all2 (\<lambda>r e. entry_of_row r = Ok e) (of_txn (transaction_id_value i) (tbl_entries D)) es
        \<and> reading D C L q0 s)
     (\<lambda>e. untouched D C q0)"
proof -
  have "entries_wf (tbl_entries D) q" using assms by (simp add: tables_inv_def)
  then show ?thesis
    using triple_read_entries [of D C L q0 _ "\<lambda>r. er_transaction_id r = transaction_id_value i"]
    by (simp add: get_entries_for_transaction_def of_txn_def sorted_entries_id)
qed

lemma triple_get_entries_for_account:
  assumes "tables_inv D q"
  shows "triple (reading D C L q0) (get_entries_for_account i)
     (\<lambda>es s. list_all2 (\<lambda>r e. entry_of_row r = Ok e)
            (filter (\<lambda>r. er_account_id r = account_id_value i) (tbl_entries D)) es
        \<and> reading D C L q0 s)
     (\<lambda>e. untouched D C q0)"
proof -
  have "entries_wf (tbl_entries D) q" using assms by (simp add: tables_inv_def)
  then show ?thesis
    using triple_read_entries [of D C L q0 _ "\<lambda>r. er_account_id r = account_id_value i"]
    by (simp add: get_entries_for_account_def sorted_entries_id)
qed

subsection \<open>Inserting rows\<close>

lemma insert_returning_Ok:
  assumes "insert_returning seq bump build put t q = (Ok i, w, q')"
  obtains r where "in_i64 (int (seq q))" "i = of_nat (seq q)" "build t i = Ok r" "w = put r" "q' = bump q"
  using assms by (auto simp: insert_returning_def nextval_eq_Ok split: result.splits)

lemma insert_returning_seq: "snd (snd (insert_returning seq bump build put t q)) \<in> {q, bump q}"
  by (auto simp: insert_returning_def split: result.splits)

lemma triple_insert:
  assumes "seq_le q0 q" and "seq_le q (bump q)"
  shows "triple (tx_in D C L (\<lambda>V r. V = W \<and> r = q)) (query l (insert_returning seq bump build put))
     (\<lambda>i s. \<exists>row. in_i64 (int (seq q)) \<and> i = of_nat (seq q) \<and> build W i = Ok row
        \<and> tx_in D C L (\<lambda>V r. V = put row W \<and> r = bump q) s)
     (\<lambda>e. untouched D C q0)"
proof -
  have "triple (tx_in D C L (\<lambda>V r. V = W \<and> r = q)) (query l (insert_returning seq bump build put))
     (\<lambda>i. tx_in D C L (\<lambda>V r. \<exists>row. in_i64 (int (seq q)) \<and> i = of_nat (seq q) \<and> build W i = Ok row
        \<and> V = put row W \<and> r = bump q))
     (\<lambda>e. untouched D C q0)"
  proof (rule triple_query)
    fix V r x w r' assume "V = W \<and> r = q" and "insert_returning seq bump build put V r = (Ok x, w, r')"
    then show "\<exists>row. in_i64 (int (seq q)) \<and> x = of_nat (seq q) \<and> build W x = Ok row \<and> w V = put row W \<and> r' = bump q"
      by (auto elim!: insert_returning_Ok)
  next
    fix V r assume "V = W \<and> r = q"
    then show "seq_le q0 r \<and> seq_le r (snd (snd (insert_returning seq bump build put V r)))"
      using assms insert_returning_seq [of seq bump build put V r] by auto
  qed
  then show ?thesis by (rule triple_weaken) (auto simp: tx_in_def)
qed

lemma tbl_append:
  "tbl_accounts_update (\<lambda>rows. rows @ xs) T = T\<lparr>tbl_accounts := tbl_accounts T @ xs\<rparr>"
  "tbl_transactions_update (\<lambda>rows. rows @ ys) T = T\<lparr>tbl_transactions := tbl_transactions T @ ys\<rparr>"
  "tbl_entries_update (\<lambda>rows. rows @ zs) T = T\<lparr>tbl_entries := tbl_entries T @ zs\<rparr>"
  by (cases T; simp)+

text \<open>The row an insertion stores; over-long text loses trailing spaces or is refused.\<close>

definition new_account_row :: "AccountType \<Rightarrow> string \<Rightarrow> u8 \<Rightarrow> i64 \<Rightarrow> i64 \<Rightarrow> account_row \<Rightarrow> bool" where
  "new_account_row ty code sc now i row \<longleftrightarrow>
     (\<exists>c. varchar 16 code = Ok c
        \<and> row = \<lparr> ar_id = i, ar_account_type = account_type_to_i16 ty, ar_asset_code = c,
                  ar_asset_scale = ucast sc, ar_version = 0, ar_posted_balance = 0,
                  ar_pending_balance = 0, ar_created_at = now \<rparr>)"

lemma triple_create_account:
  assumes inv: "tables_inv D q0" and code: "code \<noteq> []"
  shows "triple (reading D C L q0) (create_account ty code sc now)
     (\<lambda>i s. \<exists>row q. i = AccountId (ar_id row) \<and> new_account_row ty code sc now (ar_id row) row
        \<and> account_row_ok row \<and> ar_id row \<notin> ar_id ` set (tbl_accounts D) \<and> seq_le q0 q
        \<and> sint (ar_id row) < int (accounts_id_seq q)
        \<and> tx_in D C L (\<lambda>V r. V = D\<lparr>tbl_accounts := tbl_accounts D @ [row]\<rparr> \<and> r = q) s)
     (\<lambda>e. untouched D C q0)"
  unfolding create_account_def
proof (rule triple_await [OF triple_insert], goal_cases)
  case (3 i)
  have pos: "0 < accounts_id_seq q0" using inv by (simp add: tables_inv_def accounts_wf_def)
  show ?case
  proof (rule triple_Done_Ok, elim conjE exE, goal_cases)
    case (1 s row)
    from 1 pos code show ?case
      by (intro exI [of _ row] exI [of _ "accounts_id_seq_update Suc q0"])
        (auto simp: result_simps Let_def new_account_row_def account_row_ok_def tbl_append
          insert_account_check_def check_account_row_def AccountId_from_raw_def sint_of_nat_i64 seq_le_def
          dest: varchar_nonempty)
  qed
qed (simp_all add: seq_le_def)

definition new_transaction_row :: "string \<Rightarrow> 'j \<Rightarrow> i64 \<Rightarrow> 'j transaction_row \<Rightarrow> bool" where
  "new_transaction_row key metadata now t \<longleftrightarrow>
     varchar 64 key = Ok (tr_idempotency_key t) \<and> tr_status t = 1 \<and> tr_metadata t = metadata
     \<and> tr_created_at t = now \<and> tr_posted_at t = None"

lemma triple_create_transaction:
  assumes inv: "tables_inv D q0" and key: "key \<noteq> []"
  shows "triple (reading D C L q0) (create_transaction key TS_Pending metadata now None)
     (\<lambda>i s. \<exists>t q. i = TransactionId (tr_id t) \<and> new_transaction_row key metadata now t
        \<and> new_transaction_ok D q t \<and> seq_le q0 q \<and> entries_id_seq q = entries_id_seq q0
        \<and> tx_in D C L (\<lambda>V r. V = D\<lparr>tbl_transactions := tbl_transactions D @ [t]\<rparr> \<and> r = q) s)
     (\<lambda>e. untouched D C q0)"
  unfolding create_transaction_def
proof (rule triple_await [OF triple_insert], goal_cases)
  case (3 i)
  have pos: "0 < transactions_id_seq q0" using inv by (simp add: tables_inv_def transactions_wf_def)
  show ?case
  proof (rule triple_Done_Ok, elim conjE exE, goal_cases)
    case (1 s row)
    from 1 pos key show ?case
      by (intro exI [of _ row] exI [of _ "transactions_id_seq_update Suc q0"])
        (auto simp: tx_in_def result_simps Let_def new_transaction_row_def new_transaction_ok_def tbl_append
          insert_transaction_check_def check_transaction_row_def transaction_row_ok_def
          TransactionId_from_raw_def sint_of_nat_i64 seq_le_def dest: varchar_nonempty)
  qed
qed (simp_all add: seq_le_def)

definition leg_row :: "i64 \<Rightarrow> i64 \<Rightarrow> TransferLeg \<Rightarrow> i64 \<Rightarrow> entry_row" where
  "leg_row tid now leg i =
     \<lparr> er_id = i, er_transaction_id = tid, er_account_id = account_id_value (l_account_id leg),
       er_entry_type = entry_type_to_i16 (l_entry_type leg), er_amount = amount_value (l_amount leg),
       er_status = 1, er_created_at = now \<rparr>"

lemma triple_create_entry:
  assumes "seq_le q0 q" and "0 < entries_id_seq q"
  shows "triple (tx_in D C L (\<lambda>V r. V = W \<and> r = q))
     (create_entry (TransactionId tid) (l_account_id leg) (l_entry_type leg) (l_amount leg) ES_Pending now)
     (\<lambda>x s. \<exists>i. x = EntryId i \<and> sint i = int (entries_id_seq q) \<and> entry_row_ok (leg_row tid now leg i)
        \<and> account_id_value (l_account_id leg) \<in> ar_id ` set (tbl_accounts W)
        \<and> tx_in D C L (\<lambda>V r. V = W\<lparr>tbl_entries := tbl_entries W @ [leg_row tid now leg i]\<rparr>
                           \<and> r = q\<lparr>entries_id_seq := Suc (entries_id_seq q)\<rparr>) s)
     (\<lambda>e. untouched D C q0)"
  unfolding create_entry_def
proof (rule triple_await [OF triple_insert], goal_cases)
  case (3 i)
  have ty: "entry_type_to_i16 (l_entry_type leg) \<in> {1, 2}" by (cases "l_entry_type leg") simp_all
  show ?case
    by (rule triple_Done_Ok)
      (use assms ty in \<open>auto simp: tx_in_def result_simps Let_def leg_row_def entry_row_ok_def
        insert_entry_check_def check_entry_row_def EntryId_from_raw_def sint_of_nat_i64\<close>)
qed (use assms in \<open>simp_all add: seq_le_def\<close>)

subsection \<open>Updating rows\<close>

lemma triple_update:
  assumes "seq_le q0 q"
  shows "triple (tx_in D C L (\<lambda>V r. V = W \<and> r = q)) (query l (update_where get upd P f))
     (\<lambda>n s. \<exists>rs. map_result f (filter P (get W)) = Ok rs \<and> n = length rs
        \<and> tx_in D C L (\<lambda>V r. V = upd (set_where P f) W \<and> r = q) s)
     (\<lambda>e. untouched D C q0)"
proof -
  have "triple (tx_in D C L (\<lambda>V r. V = W \<and> r = q)) (query l (update_where get upd P f))
     (\<lambda>n. tx_in D C L (\<lambda>V r. \<exists>rs. map_result f (filter P (get W)) = Ok rs \<and> n = length rs
        \<and> V = upd (set_where P f) W \<and> r = q))
     (\<lambda>e. untouched D C q0)"
    by (rule triple_query) (use assms in \<open>auto simp: update_where_def split: result.splits\<close>)
  then show ?thesis by (rule triple_weaken) (auto simp: tx_in_def)
qed

lemma map_result_OkD: "map_result f xs = Ok ys \<Longrightarrow> x \<in> set xs \<Longrightarrow> \<exists>y. f x = Ok y"
  by (auto simp: map_result_eq_Ok_iff list_all2_conv_all_nth in_set_conv_nth)

lemma map_result_length: "map_result f xs = Ok ys \<Longrightarrow> length ys = length xs"
  by (auto simp: map_result_eq_Ok_iff dest: list_all2_lengthD)

lemma set_where_eq:
  assumes "\<And>r. r \<in> set rows \<Longrightarrow> P r \<Longrightarrow> f r = Ok (g r)" and "\<And>r. r \<in> set rows \<Longrightarrow> \<not> P r \<Longrightarrow> g r = r"
  shows "set_where P f rows = map g rows"
  using assms by (simp add: set_where_def)

lemma tbl_update:
  "tbl_accounts_update f T = T\<lparr>tbl_accounts := f (tbl_accounts T)\<rparr>"
  "tbl_transactions_update g T = T\<lparr>tbl_transactions := g (tbl_transactions T)\<rparr>"
  "tbl_entries_update h T = T\<lparr>tbl_entries := h (tbl_entries T)\<rparr>"
  by (cases T; simp)+

lemma triple_version_mismatch:
  assumes "seq_le q0 q"
  shows "triple (tx_in D C L (\<lambda>V r. V = W \<and> r = q)) (version_mismatch what i v) Q (\<lambda>e. untouched D C q0)"
  unfolding version_mismatch_def
proof (rule triple_await [OF triple_select], goal_cases)
  case (2 x)
  show ?case
    by (cases x) (auto intro!: triple_Done_Err simp: tx_in_def untouched_def assms)
qed (use assms in auto)

text \<open>A balance update adds the deltas to the one row of the account, exactly.\<close>

lemma triple_update_account_balance:
  assumes "seq_le q0 q" and "distinct (map ar_id (tbl_accounts W))"
  shows "triple (tx_in D C L (\<lambda>V r. V = W \<and> r = q)) (update_account_balance (AccountId i) v dp dq)
     (\<lambda>_ s. (\<forall>a \<in> set (tbl_accounts W). bump_ok [(AccountId i, dp, dq)] a)
        \<and> (\<exists>a \<in> set (tbl_accounts W). ar_id a = i \<and> ar_version a = scast v)
        \<and> tx_in D C L (\<lambda>V r. V = W\<lparr>tbl_accounts := map (bump_row [(AccountId i, dp, dq)]) (tbl_accounts W)\<rparr> \<and> r = q) s)
     (\<lambda>e. untouched D C q0)"
  unfolding update_account_balance_def
proof (rule triple_await [OF triple_update [OF assms(1)]], goal_cases)
  case (1 n)
  let ?P = "\<lambda>r. ar_id r = account_id_value (AccountId i) \<and> ar_version r = scast v"
  let ?f = "\<lambda>r. and_then (bigint_add (ar_posted_balance r) dp) (\<lambda>p.
                and_then (bigint_add (ar_pending_balance r) dq) (\<lambda>n.
                and_then (integer_add (ar_version r) 1) (\<lambda>v.
                let r' = r\<lparr>ar_posted_balance := p, ar_pending_balance := n, ar_version := v\<rparr>
                in and_then (check_account_row r') (\<lambda>_. Ok r'))))"
  show ?case
  proof (rule triple_if, goal_cases)
    case 1
    show ?case
      by (intro triple_ex triple_pre_pure) (rule triple_weaken [OF triple_version_mismatch [OF assms(1)]], simp_all)
  next
    case 2
    show ?case
    proof (rule triple_Done_Ok, elim exE conjE, goal_cases)
      case (1 s rs)
      have "filter ?P (tbl_accounts W) \<noteq> []"
        using map_result_length [OF 1(1)] 1(2) 2 by auto
      then obtain a where a: "a \<in> set (tbl_accounts W)" "ar_id a = i" "ar_version a = scast v"
        unfolding filter_empty_conv by auto
      have only: "?P b \<longleftrightarrow> ar_id b = i" if "b \<in> set (tbl_accounts W)" for b
        using distinct_map_eq [OF assms(2) that a(1)] a by auto
      have row: "?f b = Ok (bump_row [(AccountId i, dp, dq)] b) \<and> bump_ok [(AccountId i, dp, dq)] b"
        if "b \<in> set (tbl_accounts W)" "ar_id b = i" for b
        using map_result_OkD [OF 1(1), of b] that only [OF that(1)]
        by (auto simp: result_simps Let_def bump_row_def bump_ok_def)
      have "set_where ?P ?f (tbl_accounts W) = map (bump_row [(AccountId i, dp, dq)]) (tbl_accounts W)"
      proof (rule set_where_eq)
        show "?f b = Ok (bump_row [(AccountId i, dp, dq)] b)" if "b \<in> set (tbl_accounts W)" "?P b" for b
          using row [OF that(1)] that(2) by simp
        show "bump_row [(AccountId i, dp, dq)] b = b" if "b \<in> set (tbl_accounts W)" "\<not> ?P b" for b
          using only [OF that(1)] that(2) by (simp add: bump_row_def)
      qed
      with 1(3) have "tx_in D C L (\<lambda>V r. V = W\<lparr>tbl_accounts := map (bump_row [(AccountId i, dp, dq)]) (tbl_accounts W)\<rparr> \<and> r = q) s"
        by (simp only: tbl_update(1) [of "set_where ?P ?f" W])
      moreover have "bump_ok [(AccountId i, dp, dq)] b" if "b \<in> set (tbl_accounts W)" for b
        using row [OF that] by (cases "ar_id b = i") (simp_all add: bump_ok_def)
      ultimately show ?case using a by blast
    qed
  qed
qed

lemma triple_update_transaction_status:
  assumes "seq_le q0 q"
  shows "triple (tx_in D C L (\<lambda>V r. V = W \<and> r = q)) (update_transaction_status (TransactionId tid) st pa)
     (\<lambda>_ s. (case pa of None \<Rightarrow> True | Some p \<Rightarrow> 0 < sint p)
        \<and> tx_in D C L (\<lambda>V r. V = W\<lparr>tbl_transactions :=
              map (settle_row tid (transaction_status_to_i16 st) pa) (tbl_transactions W)\<rparr> \<and> r = q) s)
     (\<lambda>e. untouched D C q0)"
  unfolding update_transaction_status_def
proof (rule triple_await [OF triple_update [OF assms]], goal_cases)
  case (1 n)
  let ?P = "\<lambda>r. tr_id r = transaction_id_value (TransactionId tid)"
  let ?f = "\<lambda>r. let r' = r\<lparr>tr_status := transaction_status_to_i16 st, tr_posted_at := pa\<rparr>
                in and_then (check_transaction_row r') (\<lambda>_. Ok r')"
  let ?g = "settle_row tid (transaction_status_to_i16 st) pa"
  show ?case
  proof (rule triple_if, goal_cases)
    case 1
    show ?case by (rule triple_Done_Err) (use assms in \<open>auto simp: tx_in_def untouched_def\<close>)
  next
    case 2
    show ?case
    proof (rule triple_Done_Ok, elim exE conjE, goal_cases)
      case (1 s rs)
      have row: "?f t = Ok (?g t) \<and> (case pa of None \<Rightarrow> True | Some p \<Rightarrow> 0 < sint p)"
        if "t \<in> set (tbl_transactions W)" "tr_id t = tid" for t
        using map_result_OkD [OF 1(1), of t] that
        by (auto simp: result_simps Let_def settle_row_def check_transaction_row_def)
      have "set_where ?P ?f (tbl_transactions W) = map ?g (tbl_transactions W)"
        by (rule set_where_eq) (use row in simp, simp add: settle_row_def)
      with 1(3) have "tx_in D C L (\<lambda>V r. V = W\<lparr>tbl_transactions := map ?g (tbl_transactions W)\<rparr> \<and> r = q) s"
        by (simp only: tbl_update(2) [of "set_where ?P ?f" W])
      moreover have "filter ?P (tbl_transactions W) \<noteq> []"
        using map_result_length [OF 1(1)] 1(2) 2 by auto
      ultimately show ?case using row unfolding filter_empty_conv by auto
    qed
  qed
qed

lemma triple_update_entry_status:
  assumes "seq_le q0 q"
  shows "triple (tx_in D C L (\<lambda>V r. V = W \<and> r = q)) (update_entry_status_by_transaction (TransactionId tid) st)
     (\<lambda>_ s. tx_in D C L (\<lambda>V r. V = W\<lparr>tbl_entries :=
              map (settle_entry tid (entry_status_to_i16 st)) (tbl_entries W)\<rparr> \<and> r = q) s)
     (\<lambda>e. untouched D C q0)"
  unfolding update_entry_status_by_transaction_def
proof (rule triple_weaken [OF triple_update [OF assms, where W = W and D = D and C = C and L = L]], goal_cases)
  case (2 n s)
  let ?P = "\<lambda>r. er_transaction_id r = transaction_id_value (TransactionId tid)"
  let ?f = "\<lambda>r. let r' = r\<lparr>er_status := entry_status_to_i16 st\<rparr> in and_then (check_entry_row r') (\<lambda>_. Ok r')"
  let ?g = "settle_entry tid (entry_status_to_i16 st)"
  from 2 obtain rs where rs: "map_result ?f (filter ?P (tbl_entries W)) = Ok rs"
    and tx: "tx_in D C L (\<lambda>V r. V = tbl_entries_update (set_where ?P ?f) W \<and> r = q) s" by blast
  have "?f e = Ok (?g e)" if "e \<in> set (tbl_entries W)" "?P e" for e
    using map_result_OkD [OF rs, of e] that by (auto simp: result_simps Let_def settle_entry_def)
  then have "set_where ?P ?f (tbl_entries W) = map ?g (tbl_entries W)"
    by (rule set_where_eq) (simp_all add: settle_entry_def)
  with tx show ?case by (simp only: tbl_update(3) [of "set_where ?P ?f" W])
qed simp_all

end
