(* ===== verification/Handlers.thy ===== *)
theory Handlers
  imports StorageSpec
begin

section \<open>The handlers inside their transaction\<close>

text \<open>
  Triples for the loops of the handlers and for the bodies of authorize, capture and void,
  from the first statement of the database transaction to the response. Together they say
  what the committed tables and the cache are after each handler, for every list of faults.
\<close>

subsection \<open>Locking the accounts\<close>

definition locked :: "'j tables \<Rightarrow> AccountId list \<Rightarrow> Account list \<Rightarrow> bool" where
  "locked D ids accts \<longleftrightarrow>
     list_all2 (\<lambda>i a. \<exists>r \<in> set (tbl_accounts D). ar_id r = account_id_value i \<and> account_of_row r = Ok a) ids accts"

definition nb_in :: "'j tables \<Rightarrow> AccountId \<Rightarrow> NormalBalance" where
  "nb_in D i = row_nb (the (find (\<lambda>r. ar_id r = account_id_value i) (tbl_accounts D)))"

lemma nb_in_row:
  assumes "distinct (map ar_id (tbl_accounts D))" and "a \<in> set (tbl_accounts D)"
  shows "nb_in D (AccountId (ar_id a)) = row_nb a"
proof -
  have "find (\<lambda>r. ar_id r = ar_id a) (tbl_accounts D) = Some a"
    using assms find_row_iff by blast
  then show ?thesis by (simp add: nb_in_def)
qed

lemma account_id_eq_iff: "AccountId v = i \<longleftrightarrow> v = account_id_value i"
  by (cases i) simp

lemma find_locked:
  assumes "locked D ids accts" and "i \<in> set ids" and "distinct (map ar_id (tbl_accounts D))"
  obtains a r where "find_account accts i = Ok a" and "Account_normal_balance a = nb_in D i"
    and "r \<in> set (tbl_accounts D)" and "ar_id r = account_id_value i" and "account_of_row r = Ok a"
proof -
  have "\<exists>a. find (\<lambda>a. a_id a = i) accts = Some a \<and> (\<exists>r \<in> set (tbl_accounts D). ar_id r = account_id_value i \<and> account_of_row r = Ok a)"
    using assms(1,2) unfolding locked_def
  proof (induction rule: list_all2_induct)
    case (Cons j ids b accts)
    then obtain r where r: "r \<in> set (tbl_accounts D)" "ar_id r = account_id_value j" "account_of_row r = Ok b" by blast
    then have "a_id b = j" by (simp add: account_of_row_Ok(1) account_id_eq_iff)
    with Cons r show ?case by auto
  qed simp
  then obtain a r where a: "find (\<lambda>a. a_id a = i) accts = Some a"
    and r: "r \<in> set (tbl_accounts D)" "ar_id r = account_id_value i" "account_of_row r = Ok a" by blast
  have "nb_in D i = row_nb r"
    using nb_in_row [OF assms(3) r(1)] r(2) by (cases i) simp
  with a r that show ?thesis by (simp add: find_account_def account_of_row_Ok(3))
qed

lemma find_locked_Err:
  assumes "locked D ids accts" and "i \<in> set ids" and "distinct (map ar_id (tbl_accounts D))"
  shows "find_account accts i \<noteq> Err e"
  using find_locked [OF assms] by (metis result.distinct(1))

lemma triple_lock_accounts:
  "locked D held acc \<Longrightarrow>
   triple (reading D C L q0) (lock_accounts env ids acc)
     (\<lambda>accts s. locked D (held @ ids) accts \<and> reading D C L q0 s) (gives_up D C q0)"
proof (induction ids arbitrary: held acc)
  case Nil
  then show ?case by (auto intro!: triple_Done_Ok)
next
  case (Cons i ids)
  show ?case unfolding lock_accounts.simps get_account_for_update_def
  proof (rule triple_await [OF triple_svc [OF triple_fetch_account]], rule triple_pre_pure, goal_cases)
    case (1 x)
    show ?case
    proof (rule triple_attempt, goal_cases)
      case (1 a)
      with \<open>case find _ _ of None \<Rightarrow> _ | Some r \<Rightarrow> _ r\<close>
      obtain r where "find (\<lambda>r. ar_id r = account_id_value i) (tbl_accounts D) = Some r" and "account_of_row r = Ok a"
        by (auto simp: result_simps split: option.splits)
      then have "locked D (held @ [i]) (acc @ [a])"
        using Cons.prems find_SomeD [of _ "tbl_accounts D" r] by (auto simp: locked_def intro!: list_all2_appendI)
      from Cons.IH [OF this] show ?case by simp
    qed (auto simp: gives_up_def result_simps)
  qed
qed

lemma set_lock_order [simp]: "set (lock_order ids) = set ids"
  by (simp add: lock_order_def)

subsection \<open>The availability check\<close>

text \<open>Every leg that reduces the balance of its account finds the amount available in the cache.\<close>

definition funds_ok :: "'j tables \<Rightarrow> BalanceCache \<Rightarrow> TransferLeg list \<Rightarrow> bool" where
  "funds_ok D C legs \<longleftrightarrow>
     (\<forall>leg \<in> set legs. reduces_balance (nb_in D (l_account_id leg)) (l_entry_type leg) \<longrightarrow>
        (\<exists>b. cache_get C (l_account_id leg) = Some b \<and> has_available b (l_amount leg)))"

lemma triple_read_cache:
  "triple (reading D C L q0) (read_cache i) (\<lambda>x s. x = cache_get C i \<and> reading D C L q0 s) E"
  unfolding read_cache_def by (rule triple_atomic) (auto simp: tx_in_def)

lemma triple_count_event:
  "triple P (count_event name label) (\<lambda>_ s. \<exists>m. P (s\<lparr>srv_metrics := m\<rparr>)) E"
proof -
  have "s = (increment name label s)\<lparr>srv_metrics := srv_metrics s\<rparr>" for s :: "'a server"
    by (simp add: increment_def)
  then show ?thesis
    unfolding count_event_def by (intro triple_atomic) (auto, metis)
qed

lemma tx_in_metrics [simp]: "tx_in D C L P (s\<lparr>srv_metrics := m\<rparr>) = tx_in D C L P s"
  by (simp add: tx_in_def)

lemma triple_check_available:
  assumes "locked D ids accts" and "distinct (map ar_id (tbl_accounts D))"
  shows "set (map l_account_id legs) \<subseteq> set ids \<Longrightarrow>
   triple (reading D C L q0) (check_available accts legs)
     (\<lambda>_ s. funds_ok D C legs \<and> reading D C L q0 s) (gives_up D C q0)"
proof (induction legs)
  case Nil
  show ?case by (auto simp: funds_ok_def intro!: triple_Done_Ok)
next
  case (Cons leg legs)
  then have "l_account_id leg \<in> set ids" by simp
  from find_locked [OF assms(1) this assms(2)] obtain a
    where a: "find_account accts (l_account_id leg) = Ok a"
      "Account_normal_balance a = nb_in D (l_account_id leg)" by metis
  have IH: "triple (reading D C L q0) (check_available accts legs)
     (\<lambda>_ s. funds_ok D C legs \<and> reading D C L q0 s) (gives_up D C q0)"
    using Cons by simp
  show ?case unfolding check_available.simps a attempt_Ok a(2)
  proof (rule triple_if, goal_cases)
    case 1
    show ?case
    proof (rule triple_await [OF triple_read_cache], rule triple_pre_pure, rule triple_attempt, goal_cases)
      case (1 x b)
      then have b: "cache_get C (l_account_id leg) = Some b" by (simp add: result_simps)
      show ?case
      proof (rule triple_if, goal_cases)
        case 1
        show ?case
          by (rule triple_await [OF triple_count_event], rule triple_Done_Err) (auto simp: gives_up_def)
      next
        case 2
        with b show ?case
          by (intro triple_weaken [OF IH]) (auto simp: funds_ok_def)
      qed
    qed (auto simp: gives_up_def result_simps)
  next
    case 2
    then show ?case by (intro triple_weaken [OF IH]) (auto simp: funds_ok_def)
  qed
qed

subsection \<open>Creating the entries\<close>

definition leg_item :: "TransferLeg \<Rightarrow> item" where
  "leg_item leg = (l_account_id leg, l_entry_type leg, l_amount leg)"

lemma fst_leg_item [simp]: "fst (leg_item leg) = l_account_id leg"
  by (simp add: leg_item_def)

lemma compute_leg_delta:
  "compute_balance_delta nb (l_entry_type leg) (l_amount leg) = of_int (item_delta nb (leg_item leg))"
  unfolding leg_item_def by (rule of_int_compute_balance_delta)

text \<open>The rows written for a list of legs and the entries returned for them.\<close>

definition leg_rows :: "i64 \<Rightarrow> i64 \<Rightarrow> TransferLeg list \<Rightarrow> entry_row list \<Rightarrow> bool" where
  "leg_rows tid now legs rs \<longleftrightarrow> list_all2 (\<lambda>leg r. r = leg_row tid now leg (er_id r)) legs rs"

definition row_entries :: "entry_row list \<Rightarrow> Entry list \<Rightarrow> bool" where
  "row_entries rs es \<longleftrightarrow> list_all2 (\<lambda>r e. entry_of_row r = Ok e) rs es"

lemma row_item_leg_row [simp]: "row_item (leg_row tid now leg i) = leg_item leg"
  by (cases leg; cases "l_entry_type leg"; cases "l_amount leg"; cases "l_account_id leg")
    (auto simp: row_item_def leg_row_def leg_item_def row_et_def)

lemma leg_rows_items: "leg_rows tid now legs rs \<Longrightarrow> map row_item rs = map leg_item legs"
  unfolding leg_rows_def by (induction rule: list_all2_induct) (auto, metis row_item_leg_row)

lemma entry_of_leg_row:
  assumes "Entry_new (EntryId i) (TransactionId tid) (l_account_id leg) (l_entry_type leg) (l_amount leg) ES_Pending now = Ok e"
  shows "entry_of_row (leg_row tid now leg i) = Ok e"
  using assms
  by (cases "l_entry_type leg")
    (auto simp: entry_of_row_def build_entry_def leg_row_def i16_to_entry_type_def i16_to_entry_status_def
      EntryId_from_raw_def TransactionId_from_raw_def AccountId_from_raw_def Amount_from_raw_def)

lemma new_entries_ok_snoc:
  assumes "new_entries_ok D q tid rs" and "sint i = int (entries_id_seq q)"
    and "entry_row_ok (leg_row tid now leg i)" and "account_id_value (l_account_id leg) \<in> ar_id ` set (tbl_accounts D)"
  shows "new_entries_ok D (q\<lparr>entries_id_seq := Suc (entries_id_seq q)\<rparr>) tid (rs @ [leg_row tid now leg i])"
proof -
  have "er_id (leg_row tid now leg i) = i" "er_transaction_id (leg_row tid now leg i) = tid"
    "er_status (leg_row tid now leg i) = 1"
    "er_account_id (leg_row tid now leg i) = account_id_value (l_account_id leg)"
    by (simp_all add: leg_row_def)
  moreover have "sint (er_id e) < 1 + int (entries_id_seq q)" if "e \<in> set (tbl_entries D @ rs)" for e
    using assms(1) that by (force simp: new_entries_ok_def entries_wf_def)
  ultimately show ?thesis
    using assms by (auto simp: new_entries_ok_def entries_wf_def sorted_wrt_append)
qed

lemma new_entries_ok_Nil: "tables_inv D q0 \<Longrightarrow> seq_le q0 q \<Longrightarrow> new_entries_ok D q tid []"
  using tables_inv_seq_mono [of D q0 q] by (simp add: new_entries_ok_def tables_inv_def)

lemma triple_create_entries:
  assumes "locked D ids accts" and "distinct (map ar_id (tbl_accounts D))" and W: "tbl_accounts W = tbl_accounts D"
    and "seq_le q0 q" and "set (map l_account_id legs) \<subseteq> set ids"
    and "new_entries_ok D q tid rs" and "leg_rows tid now lg rs" and "row_entries rs es"
    and "updates_for 0 1 (nb_in D) (map leg_item lg) us"
  shows "triple (tx_in D C L (\<lambda>V r. V = W\<lparr>tbl_entries := tbl_entries D @ rs\<rparr> \<and> r = q))
     (create_entries env (TransactionId tid) accts now legs es us)
     (\<lambda>(es', us') s. \<exists>rs' q'. new_entries_ok D q' tid rs' \<and> leg_rows tid now (lg @ legs) rs' \<and> row_entries rs' es'
        \<and> updates_for 0 1 (nb_in D) (map leg_item (lg @ legs)) us' \<and> seq_le q q'
        \<and> tx_in D C L (\<lambda>V r. V = W\<lparr>tbl_entries := tbl_entries D @ rs'\<rparr> \<and> r = q') s)
     (gives_up D C q0)"
  using assms(4-)
proof (induction legs arbitrary: q rs lg es us)
  case Nil
  then show ?case by (auto intro!: triple_Done_Ok)
next
  case (Cons leg legs)
  let ?q = "q\<lparr>entries_id_seq := Suc (entries_id_seq q)\<rparr>"
  have "l_account_id leg \<in> set ids" using Cons.prems by simp
  from find_locked [OF assms(1) this assms(2)] obtain a
    where a: "find_account accts (l_account_id leg) = Ok a"
      "Account_normal_balance a = nb_in D (l_account_id leg)" by metis
  have pos: "0 < entries_id_seq q" using Cons.prems(3) by (simp add: new_entries_ok_def entries_wf_def)
  have le: "seq_le q0 ?q" "seq_le q ?q" using Cons.prems(1) by (auto simp: seq_le_def)
  show ?case unfolding create_entries.simps a attempt_Ok
  proof (rule triple_await [OF triple_svc [OF triple_create_entry [OF Cons.prems(1) pos]]],
      intro triple_ex triple_pre_pure, goal_cases)
    case (1 x i)
    show ?case
    proof (rule triple_attempt_tx, goal_cases)
      case (1 e)
      let ?d = "item_delta (nb_in D (l_account_id leg)) (leg_item leg)"
      have e: "entry_of_row (leg_row tid now leg i) = Ok e"
        using 1 \<open>x = EntryId i\<close> by (intro entry_of_leg_row) (simp add: result_simps)
      have us: "updates_for 0 1 (nb_in D) (map leg_item (lg @ [leg])) (add_pending us (l_account_id leg)
          (compute_balance_delta (nb_in D (l_account_id leg)) (l_entry_type leg) (l_amount leg)))"
        using updates_for_snoc [OF Cons.prems(6), of "l_account_id leg" "leg_item leg" ?d]
        by (simp add: add_pending_upsert compute_leg_delta)
      have es: "row_entries (rs @ [leg_row tid now leg i]) (es @ [e])"
        using e Cons.prems(5) by (simp add: row_entries_def list_all2_appendI)
      have lg: "leg_rows tid now (lg @ [leg]) (rs @ [leg_row tid now leg i])"
        using Cons.prems(4) by (simp add: leg_rows_def list_all2_appendI leg_row_def)
      have rs: "new_entries_ok D ?q tid (rs @ [leg_row tid now leg i])"
        using Cons.prems(3) \<open>sint i = _\<close> \<open>entry_row_ok _\<close> \<open>_ \<in> ar_id ` _\<close> W by (intro new_entries_ok_snoc) simp_all
      show ?case unfolding Let_def
        by (rule triple_weaken [OF Cons.IH [OF le(1) _ rs lg es us]])
          (use Cons.prems(2) in \<open>auto intro: seq_le_trans [OF le(2)]\<close>)
    qed (use le in \<open>auto simp: result_simps\<close>)
  qed
qed

subsection \<open>Writing the balances\<close>

lemma bump_row_Cons:
  assumes "map_of us (AccountId i) = None"
  shows "bump_row us (bump_row [(AccountId i, dp, dq)] a) = bump_row ((AccountId i, dp, dq) # us) a"
    and "bump_ok [(AccountId i, dp, dq)] a \<Longrightarrow> bump_ok us (bump_row [(AccountId i, dp, dq)] a) \<Longrightarrow>
           bump_ok ((AccountId i, dp, dq) # us) a"
proof -
  have same: "bump_row [(AccountId i, dp, dq)] a = a" if "ar_id a \<noteq> i"
    using that by (simp add: bump_row_def)
  show "bump_row us (bump_row [(AccountId i, dp, dq)] a) = bump_row ((AccountId i, dp, dq) # us) a"
  proof (cases "ar_id a = i")
    case True
    with assms show ?thesis by (simp add: bump_row_def)
  next
    case False
    with same show ?thesis by (simp add: bump_row_def)
  qed
  show "bump_ok ((AccountId i, dp, dq) # us) a"
    if "bump_ok [(AccountId i, dp, dq)] a" and "bump_ok us (bump_row [(AccountId i, dp, dq)] a)"
  proof (cases "ar_id a = i")
    case True
    with that(1) show ?thesis by (simp add: bump_ok_def)
  next
    case False
    with that(2) same show ?thesis by (simp add: bump_ok_def)
  qed
qed

lemma bump_row_Nil [simp]: "bump_row [] = id" "bump_ok [] a"
  by (auto simp: bump_row_def bump_ok_def)

lemma triple_apply_balance_updates:
  assumes "\<And>i. i \<in> set (map fst us) \<Longrightarrow> find_account accts i \<noteq> Err Panic"
    and "seq_le q0 q" and "distinct (map ar_id (tbl_accounts W))" and "distinct (map fst us)"
  shows "triple (tx_in D C L (\<lambda>V r. V = W \<and> r = q)) (apply_balance_updates env accts us)
     (\<lambda>_ s. (\<forall>a \<in> set (tbl_accounts W). bump_ok us a)
        \<and> tx_in D C L (\<lambda>V r. V = W\<lparr>tbl_accounts := map (bump_row us) (tbl_accounts W)\<rparr> \<and> r = q) s)
     (gives_up D C q0)"
  using assms(1,3,4)
proof (induction us arbitrary: W)
  case Nil
  show ?case by (auto intro!: triple_Done_Ok)
next
  case (Cons u us)
  obtain i dp dq where u: "u = (AccountId i, dp, dq)" by (metis AccountId.exhaust prod.exhaust)
  let ?W = "W\<lparr>tbl_accounts := map (bump_row [u]) (tbl_accounts W)\<rparr>"
  have fresh: "map_of us (AccountId i) = None" using Cons.prems(3) u by (auto simp: map_of_eq_None_iff)
  have IH: "triple (tx_in D C L (\<lambda>V r. V = ?W \<and> r = q)) (apply_balance_updates env accts us)
     (\<lambda>_ s. (\<forall>a \<in> set (tbl_accounts ?W). bump_ok us a)
        \<and> tx_in D C L (\<lambda>V r. V = ?W\<lparr>tbl_accounts := map (bump_row us) (tbl_accounts ?W)\<rparr> \<and> r = q) s)
     (gives_up D C q0)"
    by (rule Cons.IH) (use Cons.prems in \<open>auto simp: comp_def\<close>)
  show ?case unfolding u apply_balance_updates.simps
  proof (rule triple_attempt_tx, goal_cases)
    case (1 account)
    show ?case
      by (rule triple_await [OF triple_svc [OF triple_update_account_balance [OF assms(2) Cons.prems(2)]]],
          intro triple_pre_pure, rule triple_weaken [OF IH])
        (auto simp: u comp_def bump_row_Cons [OF fresh])
  next
    case (3 e)
    then show ?case using Cons.prems(1) [of "AccountId i"] u by auto
  qed (use assms(2) in simp_all)
qed

subsection \<open>Items of entries\<close>

definition entry_item :: "Entry \<Rightarrow> item" where
  "entry_item e = (e_account_id e, e_entry_type e, e_amount e)"

lemma fst_entry_item [simp]: "fst (entry_item e) = e_account_id e"
  by (simp add: entry_item_def)

lemma compute_entry_delta:
  "compute_balance_delta nb (e_entry_type e) (e_amount e) = of_int (item_delta nb (entry_item e))"
  unfolding entry_item_def by (rule of_int_compute_balance_delta)

lemma row_entries_items: "row_entries rs es \<Longrightarrow> map entry_item es = map row_item rs"
  unfolding row_entries_def by (induction rule: list_all2_induct) (auto simp: entry_item_def entry_of_row_Ok(1))

text \<open>The accounts a list of updates names are those of its items.\<close>

lemma updates_for_accounts: "updates_for cp cq nbf xs us \<Longrightarrow> set (map fst us) = fst ` set xs"
  by (auto simp: updates_for_def set_eq_iff) (metis (no_types, lifting) fst_conv imageI map_of_eq_None_iff not_None_eq weak_map_of_SomeI option.distinct(1))+

subsection \<open>After the commit\<close>

lemma triple_write_cache:
  "triple (\<lambda>s. P s \<and> srv_cache s = C) (write_cache f) (\<lambda>_ s. \<exists>c. P (s\<lparr>srv_cache := c\<rparr>) \<and> srv_cache s = f C) E"
  unfolding write_cache_def by (rule triple_atomic) (auto intro!: exI [of _ C])

lemma triple_update_cache:
  "triple (\<lambda>s. srv_db s = T \<and> srv_seqs s = q \<and> srv_cache s = C) (update_cache us)
     (\<lambda>_ s. srv_db s = T \<and> srv_seqs s = q \<and> srv_cache s = apply_deltas C us) E"
proof (induction us arbitrary: C)
  case Nil
  show ?case by (auto intro!: triple_Done_Ok)
next
  case (Cons u us)
  obtain i dp dq where u: "u = (i, dp, dq)" by (metis prod.exhaust)
  show ?case unfolding u update_cache.simps write_cache_def
    by (rule triple_await [OF triple_atomic [where Q = "\<lambda>_ s. srv_db s = T \<and> srv_seqs s = q \<and> srv_cache s = apply_delta C i dp dq"]])
      (use Cons.IH in auto)
qed

end
