(* ===== verification/Rpc.thy ===== *)
theory Rpc
  imports Handlers
begin

section \<open>What each handler commits\<close>

text \<open>
  For each handler that writes: the effect it commits, as a relation between the tables
  before and after, and the triple that the handler either commits this effect and then
  applies it to the cache and answers, or fails without a panic, with nothing committed or,
  only if the reply to the commit was lost, with the effect committed and the cache as it
  was.
\<close>

subsection \<open>Commit and what follows it\<close>

definition failed ::
    "'j tables \<Rightarrow> BalanceCache \<Rightarrow> sequences \<Rightarrow> bool \<Rightarrow> ('j tables \<Rightarrow> sequences \<Rightarrow> bool) \<Rightarrow> abort \<Rightarrow> 'j server \<Rightarrow> bool" where
  "failed D C q0 L eff e s \<longleftrightarrow>
     e \<noteq> Panic \<and> (untouched D C q0 s \<or> L \<and> srv_cache s = C \<and> eff (srv_db s) (srv_seqs s))"

lemma gives_up_failed: "gives_up D C q0 e s \<Longrightarrow> failed D C q0 L eff e s"
  by (simp add: gives_up_def failed_def)

lemma triple_gives_up:
  "triple P m Q (gives_up D C q0) \<Longrightarrow> triple P m Q (failed D C q0 L eff)"
  by (erule triple_weaken) (simp_all add: gives_up_failed)

definition closed :: "'j tables \<Rightarrow> sequences \<Rightarrow> BalanceCache \<Rightarrow> 'j server \<Rightarrow> bool" where
  "closed T q C s \<longleftrightarrow> srv_db s = T \<and> srv_seqs s = q \<and> srv_cache s = C"

lemma triple_commit_env:
  assumes "seq_le q0 q" and "eff T q"
  shows "triple (tx_in D C L (\<lambda>V r. V = T \<and> r = q)) (commit env) (\<lambda>_. closed T q C) (failed D C q0 L eff)"
  unfolding commit_def
proof (rule triple_pmap_map_err)
  have "triple (tx_in D C L (\<lambda>V r. V = T \<and> r = q)) (atomic [] commit_tx)
     (\<lambda>_ s. srv_cache s = C \<and> srv_tx s = None \<and> srv_db s = T \<and> srv_seqs s = q)
     (\<lambda>e s. untouched D C q0 s \<or> (L \<and> srv_cache s = C \<and> srv_db s = T \<and> srv_seqs s = q))"
    by (rule triple_commit) (use assms in auto)
  then show "triple (tx_in D C L (\<lambda>V r. V = T \<and> r = q)) (atomic [] commit_tx) (\<lambda>_. closed T q C)
     (\<lambda>e. failed D C q0 L eff (service_error (Internal (env_sqlx_display env e))))"
    by (rule triple_weaken) (use assms in \<open>auto simp: failed_def closed_def\<close>)
qed

lemma closed_metrics [simp]: "closed T q C (s\<lparr>srv_metrics := m\<rparr>) = closed T q C s"
  by (simp add: closed_def)

lemma triple_update_cache_closed: "triple (closed T q C) (update_cache us) (\<lambda>_. closed T q (apply_deltas C us)) E"
  using triple_update_cache by (simp add: closed_def [abs_def])

lemma triple_count_closed: "triple (closed T q C) (count_event name label) (\<lambda>_. closed T q C) E"
  by (rule triple_weaken [OF triple_count_event [where P = "closed T q C"]]) auto

subsection \<open>Authorize\<close>

text \<open>What an authorisation of the legs commits on the tables \<open>D\<close>, with the cache \<open>C\<close>.\<close>

definition authorizes ::
    "'j tables \<Rightarrow> BalanceCache \<Rightarrow> sequences \<Rightarrow> string \<Rightarrow> 'j \<Rightarrow> TransferLeg list \<Rightarrow> i64
      \<Rightarrow> 'j transaction_row \<Rightarrow> entry_row list \<Rightarrow> (AccountId \<times> i64 \<times> i64) list \<Rightarrow> sequences \<Rightarrow> bool" where
  "authorizes D C q0 key metadata legs now t rs us q \<longleftrightarrow>
     new_transaction_row key metadata now t \<and> new_transaction_ok D q t
     \<and> new_entries_ok D q (tr_id t) rs \<and> leg_rows (tr_id t) now legs rs
     \<and> updates_for 0 1 (nb_in D) (map leg_item legs) us \<and> seq_le q0 q \<and> funds_ok D C legs
     \<and> (\<forall>a \<in> set (tbl_accounts D). bump_ok us a)"

text \<open>The transaction message of a row.\<close>

definition proto_of_row :: "'j transaction_row \<Rightarrow> ProtoTransaction" where
  "proto_of_row t =
     \<lparr> pt_id = tr_id t, pt_idempotency_key = tr_idempotency_key t, pt_status = scast (tr_status t),
       pt_created_at = tr_created_at t,
       pt_posted_at = (case tr_posted_at t of None \<Rightarrow> 0 | Some p \<Rightarrow> p) \<rparr>"

lemma transaction_to_proto_row:
  assumes "transaction_of_row r = Ok t"
  shows "transaction_to_proto t = proto_of_row r"
proof -
  have "transaction_status_to_proto (t_status t) = scast (transaction_status_to_i16 (t_status t))"
    by (cases "t_status t") simp_all
  with transaction_of_row_Ok [OF assms] show ?thesis
    by (simp add: transaction_to_proto_def proto_of_row_def)
qed

lemma new_transaction_ok_mono: "new_transaction_ok D q t \<Longrightarrow> seq_le q q' \<Longrightarrow> new_transaction_ok D q' t"
  by (auto simp: new_transaction_ok_def seq_le_def)

text \<open>The handler from the balance updates on.\<close>

lemma triple_authorize_finish:
  assumes inv: "tables_inv D q0" and key: "key \<noteq> []"
    and us: "\<And>i. i \<in> set (map fst us) \<Longrightarrow> find_account accts i \<noteq> Err Panic"
    and ok: "(\<forall>a \<in> set (tbl_accounts D). bump_ok us a) \<Longrightarrow> authorizes D C q0 key metadata legs now t rs us q"
    and t: "seq_le q0 q" "distinct (map fst us)" "new_transaction_row key metadata now t" "0 < sint now"
    and es: "row_entries rs es"
  shows "triple (tx_in D C L (\<lambda>V r. V = D\<lparr>tbl_transactions := tbl_transactions D @ [t], tbl_entries := tbl_entries D @ rs\<rparr> \<and> r = q))
     (await (apply_balance_updates env accts us) (\<lambda>_.
      await (commit env) (\<lambda>_.
      await (update_cache us) (\<lambda>_.
      await (count_event ''fides_transactions_total'' ''pending'') (\<lambda>_.
      attempt (map_err (\<lambda>e. service_error (ServiceError_from_TransactionError e))
        (Transaction_new (TransactionId (tr_id t)) key TS_Pending metadata now 0)) (\<lambda>transaction.
      Done (Ok \<lparr> aus_transaction = transaction_to_proto transaction, aus_entries = map entry_to_proto es \<rparr>)))))))
     (\<lambda>resp s. \<exists>t rs us q es. authorizes D C q0 key metadata legs now t rs us q
        \<and> closed (authorized D t rs us) q (apply_deltas C us) s \<and> row_entries rs es
        \<and> resp = \<lparr> aus_transaction = (proto_of_row t)\<lparr>pt_idempotency_key := key\<rparr>,
                   aus_entries = map entry_to_proto es \<rparr>)
     (failed D C q0 L (\<lambda>T q. \<exists>t rs us. authorizes D C q0 key metadata legs now t rs us q \<and> T = authorized D t rs us))"
proof -
  let ?W = "D\<lparr>tbl_transactions := tbl_transactions D @ [t], tbl_entries := tbl_entries D @ rs\<rparr>"
  have ids: "distinct (map ar_id (tbl_accounts ?W))" using inv by (simp add: tables_inv_def accounts_wf_def)
  have T: "?W\<lparr>tbl_accounts := map (bump_row us) (tbl_accounts ?W)\<rparr> = authorized D t rs us"
    by (simp add: authorized_def)
  obtain x where x: "Transaction_new (TransactionId (tr_id t)) key TS_Pending metadata now 0 = Ok x"
    and resp: "transaction_to_proto x = (proto_of_row t)\<lparr>pt_idempotency_key := key\<rparr>"
  proof (rule that [OF Transaction_new_pending [OF key t(4)]])
  qed (use t(3) in \<open>simp add: transaction_to_proto_def proto_of_row_def new_transaction_row_def\<close>)
  show ?thesis
  proof (rule triple_await [OF triple_gives_up [OF triple_apply_balance_updates [OF us t(1) ids t(2)]]], assumption,
      rule triple_pre_pure, unfold T, goal_cases)
    case 1
    then have ok': "authorizes D C q0 key metadata legs now t rs us q" by (intro ok) simp
    show ?case
      unfolding x map_err.simps attempt_Ok resp
      by (rule triple_await [OF triple_commit_env [OF t(1)]], use ok' in blast,
          rule triple_await [OF triple_update_cache_closed], rule triple_await [OF triple_count_closed],
          rule triple_Done_Ok) (use ok' es in blast)
  qed
qed

lemma triple_authorize_new:
  assumes inv: "tables_inv D q0" and key: "key \<noteq> []"
  shows "triple (reading D C L q0) (authorize_new env key metadata legs now)
     (\<lambda>resp s. \<exists>t rs us q es. authorizes D C q0 key metadata legs now t rs us q
        \<and> closed (authorized D t rs us) q (apply_deltas C us) s \<and> row_entries rs es
        \<and> resp = \<lparr> aus_transaction = (proto_of_row t)\<lparr>pt_idempotency_key := key\<rparr>,
                   aus_entries = map entry_to_proto es \<rparr>)
     (failed D C q0 L (\<lambda>T q. \<exists>t rs us. authorizes D C q0 key metadata legs now t rs us q \<and> T = authorized D t rs us))"
proof -
  have ids: "distinct (map ar_id (tbl_accounts D))" using inv by (simp add: tables_inv_def accounts_wf_def)
  show ?thesis unfolding authorize_new_def
  proof (rule triple_await [OF triple_gives_up [OF triple_lock_accounts [where held = "[]"]]], simp add: locked_def,
      rule triple_pre_pure, goal_cases)
    case (1 accts)
    then have accts: "locked D (lock_order (map l_account_id legs)) accts" by simp
    show ?case
    proof (rule triple_await [OF triple_gives_up [OF triple_check_available [OF accts ids]]], simp,
        rule triple_pre_pure, rule triple_await [OF triple_gives_up [OF triple_svc [OF triple_create_transaction [OF inv key]]]],
        intro triple_ex triple_pre_pure, goal_cases)
      case (1 _ i t q)
      note t = 1
      let ?W = "D\<lparr>tbl_transactions := tbl_transactions D @ [t]\<rparr>"
      have now: "0 < sint now"
        using 1 by (simp add: new_transaction_row_def new_transaction_ok_def transaction_row_ok_def)
      have start: "new_entries_ok D q (tr_id t) []" "leg_rows (tr_id t) now [] []" "row_entries [] []"
        using inv 1 by (simp_all add: new_entries_ok_Nil leg_rows_def row_entries_def)
      have W: "?W\<lparr>tbl_entries := tbl_entries D @ []\<rparr> = ?W" by simp
      show ?case unfolding \<open>i = _\<close>
      proof (rule triple_await [OF triple_gives_up [OF triple_create_entries [OF accts ids _ 1(5) _ start, where W = ?W, unfolded W]]],
          simp, simp, simp, clarify, intro triple_ex triple_pre_pure, goal_cases)
        case (1 es us rs q')
        show ?case
        proof (rule triple_authorize_finish [OF inv key])
          show "find_account accts j \<noteq> Err Panic" if "j \<in> set (map fst us)" for j
            using that updates_for_accounts [OF 1(4)] find_locked_Err [OF accts _ ids, of j] by (auto simp: leg_item_def)
        qed (use 1 \<open>funds_ok D C legs\<close> t now in \<open>auto simp: authorizes_def updates_for_def
              intro: seq_le_trans new_transaction_ok_mono\<close>)
      qed
    qed
  qed
qed

end
