(* ===== verification/Settle.thy ===== *)
theory Settle
  imports Rpc
begin

section \<open>Capture and void as one contract\<close>

text \<open>
  Capture and void are the same sequence of steps with different balance updates and a
  different terminal state. \<open>settle\<close> is the sequence; the locale \<open>settlement\<close> states what
  it needs of the updates and of the state, and what it commits; both handlers interpret it.
\<close>

type_synonym updates = "(AccountId \<times> i64 \<times> i64) list"

definition settle ::
    "(Account list \<Rightarrow> Entry list \<Rightarrow> updates \<Rightarrow> (updates, abort) result) \<Rightarrow> TransactionStatus \<Rightarrow> EntryStatus
      \<Rightarrow> i64 option \<Rightarrow> i64 \<Rightarrow> string \<Rightarrow> 'j env \<Rightarrow> TransactionId \<Rightarrow> 'j Transaction \<Rightarrow> ('j, ProtoTransaction) rpc" where
  "settle upd st est pa p label env i transaction =
     await (svc env (get_entries_for_transaction i)) (\<lambda>es.
     await (lock_accounts env (lock_order (map e_account_id es)) []) (\<lambda>accts.
     attempt (upd accts es []) (\<lambda>us.
     await (svc env (update_transaction_status i st pa)) (\<lambda>_.
     await (svc env (update_entry_status_by_transaction i est)) (\<lambda>_.
     await (apply_balance_updates env accts us) (\<lambda>_.
     await (commit env) (\<lambda>_.
     await (update_cache us) (\<lambda>_.
     await (count_event ''fides_transactions_total'' label) (\<lambda>_.
     attempt (map_err (\<lambda>e. service_error (ServiceError_from_TransactionError e))
       (Transaction_new i (t_idempotency_key transaction) st (t_metadata transaction)
         (t_created_at transaction) p)) (\<lambda>updated.
     Done (Ok (transaction_to_proto updated))))))))))))"

lemma capture_pending_settle:
  "capture_pending env i transaction now =
     settle capture_updates TS_Posted ES_Posted (Some now) now ''posted'' env i transaction"
  by (simp add: capture_pending_def settle_def)

lemma void_pending_settle:
  "void_pending env i transaction = settle void_updates TS_Voided ES_Voided None 0 ''voided'' env i transaction"
  by (simp add: void_pending_def settle_def)

text \<open>What is committed for the pending transaction \<open>t\<close>.\<close>

definition settles ::
    "'j tables \<Rightarrow> 'j transaction_row \<Rightarrow> i16 \<Rightarrow> i64 option \<Rightarrow> int \<Rightarrow> int \<Rightarrow> updates \<Rightarrow> bool" where
  "settles D t st pa cp cq us \<longleftrightarrow>
     terminal st pa cp cq
     \<and> updates_for cp cq (nb_in D) (map row_item (of_txn (tr_id t) (tbl_entries D))) us
     \<and> (\<forall>a \<in> set (tbl_accounts D). bump_ok us a)"

definition posted_at_ok :: "i64 option \<Rightarrow> bool" where
  "posted_at_ok pa \<longleftrightarrow> (case pa of None \<Rightarrow> True | Some p \<Rightarrow> 0 < sint p)"

text \<open>The accounts of the entries are locked, and their normal balances are \<open>nbf\<close>.\<close>

definition covers :: "Account list \<Rightarrow> (AccountId \<Rightarrow> NormalBalance) \<Rightarrow> Entry list \<Rightarrow> bool" where
  "covers accts nbf es \<longleftrightarrow>
     (\<forall>e \<in> set es. \<exists>a. find_account accts (e_account_id e) = Ok a \<and> Account_normal_balance a = nbf (e_account_id e))"

locale settlement =
  fixes upd :: "Account list \<Rightarrow> Entry list \<Rightarrow> updates \<Rightarrow> (updates, abort) result"
    and st :: TransactionStatus and est :: EntryStatus and pa :: "i64 option" and p :: i64
    and cp :: int and cq :: int
  assumes upd_updates: "covers accts nbf es \<Longrightarrow> updates_for cp cq nbf xs us \<Longrightarrow>
      \<exists>us'. upd accts es us = Ok us' \<and> updates_for cp cq nbf (xs @ map entry_item es) us'"
    and same_code: "entry_status_to_i16 est = transaction_status_to_i16 st"
    and is_terminal: "posted_at_ok pa \<Longrightarrow> terminal (transaction_status_to_i16 st) pa cp cq"
    and posted_at: "p = (case pa of None \<Rightarrow> 0 | Some x \<Rightarrow> x)"
begin

lemma settled_proto:
  assumes "transaction_of_row t = Ok transaction" and "transaction_row_ok t" and "posted_at_ok pa"
  obtains x where "Transaction_new (TransactionId (tr_id t)) (t_idempotency_key transaction) st
      (t_metadata transaction) (t_created_at transaction) p = Ok x"
    and "transaction_to_proto x = proto_of_row (settle_row (tr_id t) (transaction_status_to_i16 st) pa t)"
proof -
  let ?x = "\<lparr> t_id = TransactionId (tr_id t), t_idempotency_key = tr_idempotency_key t, t_status = st,
     t_metadata = tr_metadata t, t_created_at = tr_created_at t, t_posted_at = p \<rparr>"
  have "transaction_ok ?x"
    using assms(2,3) is_terminal [OF assms(3)] posted_at
    by (cases st) (auto simp: transaction_ok_def transaction_row_ok_def terminal_def posted_at_ok_def split: option.splits)
  then have x: "Transaction_new (TransactionId (tr_id t)) (tr_idempotency_key t) st
      (tr_metadata t) (tr_created_at t) p = Ok ?x" by (rule Transaction_new_complete)
  have code: "transaction_status_to_proto st = scast (transaction_status_to_i16 st)"
    by (cases st) simp_all
  show ?thesis
  proof (rule that [of ?x])
    show "Transaction_new (TransactionId (tr_id t)) (t_idempotency_key transaction) st
      (t_metadata transaction) (t_created_at transaction) p = Ok ?x"
      using x transaction_of_row_Ok [OF assms(1)] by simp
    show "transaction_to_proto ?x = proto_of_row (settle_row (tr_id t) (transaction_status_to_i16 st) pa t)"
      using posted_at code
      by (simp add: transaction_to_proto_def proto_of_row_def settle_row_def)
  qed
qed

text \<open>The handler from the balance updates on.\<close>

lemma triple_settle_finish:
  assumes inv: "tables_inv D q0" and t: "t \<in> set (tbl_transactions D)" "transaction_of_row t = Ok transaction"
    and us: "\<And>i. i \<in> set (map fst us) \<Longrightarrow> find_account accts i \<noteq> Err Panic"
    and upds: "updates_for cp cq (nb_in D) (map row_item (of_txn (tr_id t) (tbl_entries D))) us"
    and pa: "posted_at_ok pa" and code: "code = transaction_status_to_i16 st"
  shows "triple (tx_in D C L (\<lambda>V r. V = D\<lparr>tbl_transactions := map (settle_row (tr_id t) code pa) (tbl_transactions D),
        tbl_entries := map (settle_entry (tr_id t) code) (tbl_entries D)\<rparr> \<and> r = q0))
     (await (apply_balance_updates env accts us) (\<lambda>_.
      await (commit env) (\<lambda>_.
      await (update_cache us) (\<lambda>_.
      await (count_event ''fides_transactions_total'' label) (\<lambda>_.
      attempt (map_err (\<lambda>e. service_error (ServiceError_from_TransactionError e))
        (Transaction_new (TransactionId (tr_id t)) (t_idempotency_key transaction) st (t_metadata transaction)
          (t_created_at transaction) p)) (\<lambda>updated.
      Done (Ok (transaction_to_proto updated))))))))
     (\<lambda>resp s. \<exists>us. settles D t code pa cp cq us
        \<and> closed (settled D (tr_id t) code pa us) q0 (apply_deltas C us) s
        \<and> resp = proto_of_row (settle_row (tr_id t) code pa t))
     (failed D C q0 L (\<lambda>T q. \<exists>us. settles D t code pa cp cq us \<and> T = settled D (tr_id t) code pa us \<and> q = q0))"
proof -
  let ?W = "D\<lparr>tbl_transactions := map (settle_row (tr_id t) code pa) (tbl_transactions D),
        tbl_entries := map (settle_entry (tr_id t) code) (tbl_entries D)\<rparr>"
  have ids: "distinct (map ar_id (tbl_accounts ?W))" using inv by (simp add: tables_inv_def accounts_wf_def)
  have T: "?W\<lparr>tbl_accounts := map (bump_row us) (tbl_accounts ?W)\<rparr> = settled D (tr_id t) code pa us"
    by (simp add: settled_def)
  have dist: "distinct (map fst us)" using upds by (simp add: updates_for_def)
  have "transaction_row_ok t" using inv t by (simp add: tables_inv_def transactions_wf_def)
  from settled_proto [OF t(2) this pa] obtain x where
    x: "Transaction_new (TransactionId (tr_id t)) (t_idempotency_key transaction) st
      (t_metadata transaction) (t_created_at transaction) p = Ok x"
    and resp: "transaction_to_proto x = proto_of_row (settle_row (tr_id t) code pa t)"
    unfolding code by blast
  show ?thesis
  proof (rule triple_await [OF triple_gives_up [OF triple_apply_balance_updates [OF us _ ids dist]]], assumption, rule seq_le_refl,
      rule triple_pre_pure, unfold T, goal_cases)
    case 1
    then have ok: "settles D t code pa cp cq us"
      using is_terminal [OF pa] upds by (simp add: settles_def code)
    show ?case
      unfolding x map_err.simps attempt_Ok resp
      by (rule triple_await [OF triple_commit_env [OF seq_le_refl]], use ok in blast,
          rule triple_await [OF triple_update_cache_closed], rule triple_await [OF triple_count_closed],
          rule triple_Done_Ok) (use ok in blast)
  qed
qed

lemma triple_settle:
  assumes inv: "tables_inv D q0" and t: "t \<in> set (tbl_transactions D)" "transaction_of_row t = Ok transaction"
    and code: "code = transaction_status_to_i16 st"
  shows "triple (reading D C L q0) (settle upd st est pa p label env (TransactionId (tr_id t)) transaction)
     (\<lambda>resp s. \<exists>us. settles D t code pa cp cq us
        \<and> closed (settled D (tr_id t) code pa us) q0 (apply_deltas C us) s
        \<and> resp = proto_of_row (settle_row (tr_id t) code pa t))
     (failed D C q0 L (\<lambda>T q. \<exists>us. settles D t code pa cp cq us \<and> T = settled D (tr_id t) code pa us \<and> q = q0))"
proof -
  have ids: "distinct (map ar_id (tbl_accounts D))" using inv by (simp add: tables_inv_def accounts_wf_def)
  show ?thesis unfolding settle_def
  proof (rule triple_await [OF triple_gives_up [OF triple_svc [OF triple_get_entries_for_transaction [OF inv]]]],
      rule triple_pre_pure, rule triple_await [OF triple_gives_up [OF triple_lock_accounts [where held = "[]"]]],
      simp add: locked_def, rule triple_pre_pure, goal_cases)
    case (1 es accts)
    then have es: "row_entries (of_txn (tr_id t) (tbl_entries D)) es"
      and accts: "locked D (lock_order (map e_account_id es)) accts" by (simp_all add: row_entries_def)
    have "covers accts (nb_in D) es"
      unfolding covers_def using find_locked [OF accts _ ids] by (metis image_eqI list.set_map set_lock_order)
    from upd_updates [OF this updates_for_Nil] obtain us where us: "upd accts es [] = Ok us"
      and upds: "updates_for cp cq (nb_in D) (map row_item (of_txn (tr_id t) (tbl_entries D))) us"
      by (auto simp: row_entries_items [OF es])
    have names: "find_account accts i \<noteq> Err Panic" if "i \<in> set (map fst us)" for i
    proof -
      have "set (map fst us) = e_account_id ` set es"
        using updates_for_accounts [OF upds] unfolding row_entries_items [OF es, symmetric] by (simp add: image_image)
      with that find_locked_Err [OF accts _ ids, of i] show ?thesis by auto
    qed
    show ?case unfolding us attempt_Ok
    proof (rule triple_await [OF triple_gives_up [OF triple_svc [OF triple_update_transaction_status [OF seq_le_refl]]]],
        rule triple_pre_pure, rule triple_await [OF triple_gives_up [OF triple_svc [OF triple_update_entry_status [OF seq_le_refl]]]],
        goal_cases)
      case 1
      then have "posted_at_ok pa" by (simp add: posted_at_ok_def)
      from triple_settle_finish [OF inv t names upds this code, of C L env label] show ?case
        by (simp add: same_code code)
    qed
  qed
qed

end

text \<open>The two handlers.\<close>

lemma capture_updates_step:
  assumes "covers accts nbf es" and "updates_for 1 (- 1) nbf xs us"
  shows "\<exists>us'. capture_updates accts es us = Ok us' \<and> updates_for 1 (- 1) nbf (xs @ map entry_item es) us'"
  using assms
proof (induction es arbitrary: xs us)
  case (Cons e es)
  then obtain a where a: "find_account accts (e_account_id e) = Ok a" "Account_normal_balance a = nbf (e_account_id e)"
    by (auto simp: covers_def)
  let ?d = "item_delta (nbf (e_account_id e)) (entry_item e)"
  have "updates_for 1 (- 1) nbf (xs @ [entry_item e]) (move_to_posted us (e_account_id e) (of_int ?d))"
    using updates_for_snoc [OF Cons.prems(2), of "e_account_id e" "entry_item e" ?d]
    by (simp add: move_to_posted_upsert)
  from Cons.IH [OF _ this] Cons.prems(1) a show ?case by (simp add: compute_entry_delta covers_def)
qed simp

lemma void_updates_step:
  assumes "covers accts nbf es" and "updates_for 0 (- 1) nbf xs us"
  shows "\<exists>us'. void_updates accts es us = Ok us' \<and> updates_for 0 (- 1) nbf (xs @ map entry_item es) us'"
  using assms
proof (induction es arbitrary: xs us)
  case (Cons e es)
  then obtain a where a: "find_account accts (e_account_id e) = Ok a" "Account_normal_balance a = nbf (e_account_id e)"
    by (auto simp: covers_def)
  let ?d = "item_delta (nbf (e_account_id e)) (entry_item e)"
  have "updates_for 0 (- 1) nbf (xs @ [entry_item e]) (remove_pending us (e_account_id e) (of_int ?d))"
    using updates_for_snoc [OF Cons.prems(2), of "e_account_id e" "entry_item e" ?d]
    by (simp add: remove_pending_upsert)
  from Cons.IH [OF _ this] Cons.prems(1) a show ?case by (simp add: compute_entry_delta covers_def)
qed simp

interpretation capturing: settlement capture_updates TS_Posted ES_Posted "Some now" now 1 "- 1" for now
  by unfold_locales (simp_all add: capture_updates_step posted_at_ok_def terminal_def)

interpretation voiding: settlement void_updates TS_Voided ES_Voided None 0 0 "- 1"
  by unfold_locales (simp_all add: void_updates_step posted_at_ok_def terminal_def)

end
