(* ===== verification/History.thy ===== *)
theory History
  imports Effects
begin

section \<open>History and cache\<close>

text \<open>
  How the tables may change over time: accounts, transactions and entries are only added;
  an account keeps its identity; a transaction changes its state at most once, from pending
  to a terminal state, and nothing else of it changes; an entry changes nothing but its
  state. And how the cache follows the account rows.
\<close>

subsection \<open>Append-only tables\<close>

definition extends :: "('r \<Rightarrow> 'r \<Rightarrow> bool) \<Rightarrow> 'r list \<Rightarrow> 'r list \<Rightarrow> bool" where
  "extends R xs ys \<longleftrightarrow> (\<exists>ys1 ys2. ys = ys1 @ ys2 \<and> list_all2 R xs ys1)"

definition same_account :: "account_row \<Rightarrow> account_row \<Rightarrow> bool" where
  "same_account a b \<longleftrightarrow>
     ar_id b = ar_id a \<and> ar_account_type b = ar_account_type a \<and> ar_asset_code b = ar_asset_code a
     \<and> ar_asset_scale b = ar_asset_scale a \<and> ar_created_at b = ar_created_at a
     \<and> sint (ar_version a) \<le> sint (ar_version b)"

definition transaction_step :: "'j transaction_row \<Rightarrow> 'j transaction_row \<Rightarrow> bool" where
  "transaction_step t u \<longleftrightarrow>
     u = t \<or> tr_status t = 1 \<and> (\<exists>st pa. st \<in> {2, 3} \<and> u = t\<lparr>tr_status := st, tr_posted_at := pa\<rparr>)"

definition entry_step :: "entry_row \<Rightarrow> entry_row \<Rightarrow> bool" where
  "entry_step e f \<longleftrightarrow> f = e \<or> er_status e = 1 \<and> (\<exists>st. st \<in> {2, 3} \<and> f = e\<lparr>er_status := st\<rparr>)"

definition evolves :: "'j tables \<Rightarrow> 'j tables \<Rightarrow> bool" where
  "evolves T U \<longleftrightarrow>
     extends same_account (tbl_accounts T) (tbl_accounts U)
     \<and> extends transaction_step (tbl_transactions T) (tbl_transactions U)
     \<and> extends entry_step (tbl_entries T) (tbl_entries U)"

lemma extends_map: "(\<And>x. x \<in> set xs \<Longrightarrow> R x (f x)) \<Longrightarrow> extends R xs (map f xs @ ys)"
  unfolding extends_def by (rule exI [of _ "map f xs"]) (simp add: list_all2_map2 list.rel_refl_strong)

lemma extends_refl: "(\<And>x. R x x) \<Longrightarrow> extends R xs (xs @ ys)"
  using extends_map [of xs R id ys] by simp

lemma extends_same: "(\<And>x. R x x) \<Longrightarrow> extends R xs xs"
  using extends_refl [of R xs "[]"] by simp

lemma extends_trans:
  assumes "\<And>x y z. R x y \<Longrightarrow> R y z \<Longrightarrow> R x z" and "extends R xs ys" and "extends R ys zs"
  shows "extends R xs zs"
proof -
  from assms(2) obtain y1 y2 where ys: "ys = y1 @ y2" "list_all2 R xs y1" unfolding extends_def by blast
  from assms(3) obtain z1 z2 where zs: "zs = z1 @ z2" "list_all2 R (y1 @ y2) z1" unfolding extends_def ys by blast
  from zs(2) obtain u1 u2 where "z1 = u1 @ u2" "list_all2 R y1 u1" by (auto simp: list_all2_append1)
  with ys(2) have "list_all2 R xs u1" using list_all2_trans [of R R R] assms(1) by blast
  with zs(1) \<open>z1 = u1 @ u2\<close> show ?thesis unfolding extends_def by auto
qed

lemma same_account_refl [simp]: "same_account a a"
  by (simp add: same_account_def)

lemma transaction_step_refl [simp]: "transaction_step t t"
  by (simp add: transaction_step_def)

lemma entry_step_refl [simp]: "entry_step e e"
  by (simp add: entry_step_def)

lemma evolves_refl [simp, intro]: "evolves T T"
  by (simp add: evolves_def extends_same)

lemma transaction_step_trans: "transaction_step t u \<Longrightarrow> transaction_step u v \<Longrightarrow> transaction_step t v"
  by (auto simp: transaction_step_def)

lemma entry_step_trans: "entry_step t u \<Longrightarrow> entry_step u v \<Longrightarrow> entry_step t v"
  by (auto simp: entry_step_def)

lemma same_account_trans: "same_account a b \<Longrightarrow> same_account b c \<Longrightarrow> same_account a c"
  by (auto simp: same_account_def)

lemma evolves_trans: "evolves T U \<Longrightarrow> evolves U V \<Longrightarrow> evolves T V"
  unfolding evolves_def
  by (blast intro: extends_trans [of same_account] extends_trans [of transaction_step] extends_trans [of entry_step]
      same_account_trans transaction_step_trans entry_step_trans)

lemma same_account_bump: "bump_ok us a \<Longrightarrow> same_account a (bump_row us a)"
  by (auto simp: same_account_def bump_ok_def bump_row_def sint_add_exact_i32 split: option.splits)

lemma evolves_add_account: "evolves T (T\<lparr>tbl_accounts := tbl_accounts T @ [a]\<rparr>)"
  by (simp add: evolves_def extends_refl extends_same)

lemma evolves_authorized:
  assumes "\<And>a. a \<in> set (tbl_accounts T) \<Longrightarrow> bump_ok us a"
  shows "evolves T (authorized T t rs us)"
  using assms extends_map [of "tbl_accounts T" same_account "bump_row us" "[]"]
  by (simp add: evolves_def authorized_def extends_refl same_account_bump)

lemma evolves_settled:
  assumes inv: "tables_inv T q" and t: "t \<in> set (tbl_transactions T)" "tr_status t = 1" and "terminal st pa cp cq"
    and "\<And>a. a \<in> set (tbl_accounts T) \<Longrightarrow> bump_ok us a"
  shows "evolves T (settled T (tr_id t) st pa us)"
proof -
  have st: "st \<in> {2, 3}" using assms(4) by (auto simp: terminal_def split: option.splits)
  have "transaction_step u (settle_row (tr_id t) st pa u)" if "u \<in> set (tbl_transactions T)" for u
  proof (cases "tr_id u = tr_id t")
    case True
    with inv t that have "u = t"
      by (intro distinct_map_eq [of tr_id "tbl_transactions T"]) (simp_all add: tables_inv_def transactions_wf_def)
    with t st show ?thesis by (auto simp: transaction_step_def settle_row_def)
  qed (simp add: settle_row_def)
  moreover have "entry_step e (settle_entry (tr_id t) st e)" if "e \<in> set (tbl_entries T)" for e
    using pending_entries [OF inv t(1), of e] that t(2) st by (auto simp: entry_step_def settle_entry_def of_txn_def)
  ultimately show ?thesis
    using extends_map [of "tbl_accounts T" same_account "bump_row us" "[]"] assms(5)
      extends_map [of "tbl_transactions T" transaction_step _ "[]"] extends_map [of "tbl_entries T" entry_step _ "[]"]
    by (simp add: evolves_def settled_def same_account_bump)
qed

subsection \<open>The cache follows the account rows\<close>

lemma mirrors_bump:
  assumes "mirrors c as" and "distinct (map ar_id as)" and "distinct (map fst us)"
    and ok: "\<And>a. a \<in> set as \<Longrightarrow> bump_ok us a"
  shows "mirrors (apply_deltas c us) (map (bump_row us) as)"
proof -
  have row: "cache_map c (AccountId i) = Some (p, q) \<Longrightarrow>
      \<exists>a \<in> set as. ar_id a = i \<and> ar_posted_balance a = p \<and> ar_pending_balance a = q" for i p q
    using assms(1,2) by (auto simp: mirrors_def find_row_iff)
  have fits: "in_i64 (sint p + sint dp) \<and> in_i64 (sint q + sint dq)"
    if u: "(j, dp, dq) \<in> set us" and c: "cache_map c j = Some (p, q)" for j p q dp dq
  proof -
    obtain i where j: "j = AccountId i" by (cases j)
    from c row j obtain a where "a \<in> set as" "ar_id a = i" "ar_posted_balance a = p" "ar_pending_balance a = q" by metis
    moreover have "map_of us j = Some (dp, dq)" using u assms(3) by simp
    ultimately show ?thesis using ok [of a] j by (auto simp: bump_ok_def)
  qed
  have find: "find (\<lambda>r. ar_id r = i) (map (bump_row us) as) = map_option (bump_row us) (find (\<lambda>r. ar_id r = i) as)" for i
    by (induction as) auto
  show ?thesis
    unfolding mirrors_def
  proof (intro conjI allI)
    show "cache_wf (apply_deltas c us)" using assms(1) by (simp add: mirrors_def cache.wf_deltas)
    fix i
    have c: "cache_map c (AccountId i) = map_option (\<lambda>r. (ar_posted_balance r, ar_pending_balance r)) (find (\<lambda>r. ar_id r = i) as)"
      using assms(1) by (simp add: mirrors_def)
    have new: "cache_map (apply_deltas c us) (AccountId i) =
        (case cache_map c (AccountId i) of None \<Rightarrow> None
         | Some (p, q) \<Rightarrow> (case map_of us (AccountId i) of None \<Rightarrow> Some (p, q) | Some (dp, dq) \<Rightarrow> Some (p + dp, q + dq)))"
      by (rule cache.view_deltas [OF assms(3)]) (rule fits)
    show "cache_map (apply_deltas c us) (AccountId i) =
        map_option (\<lambda>r. (ar_posted_balance r, ar_pending_balance r)) (find (\<lambda>r. ar_id r = i) (map (bump_row us) as))"
    proof (cases "find (\<lambda>r. ar_id r = i) as")
      case None
      with new c find show ?thesis by simp
    next
      case (Some a)
      then have "ar_id a = i" using find_SomeD by fast
      then show ?thesis
        unfolding find new c Some by (simp add: bump_row_def split: option.split)
    qed
  qed
qed

lemma mirrors_add:
  assumes "mirrors c as" and "ar_id a \<notin> ar_id ` set as" and "ar_posted_balance a = 0" and "ar_pending_balance a = 0"
  shows "mirrors (cache_set c (AccountId (ar_id a)) 0 0) (as @ [a])"
proof -
  have "find (\<lambda>r. ar_id r = i) (as @ [a]) =
      (if i = ar_id a then Some a else find (\<lambda>r. ar_id r = i) as)" for i
    using assms(2) by (induction as) auto
  with assms show ?thesis by (auto simp: mirrors_def cache.view_set cache.wf_set)
qed

end
