(* ===== verification/Service.thy ===== *)
theory Service
  imports Settle History
begin

section \<open>The RPC handlers\<close>

text \<open>
  The seven handlers from the request to the end of the scope of the transaction handle:
  their triples, for every list of faults, on tables that satisfy the invariant.
\<close>

subsection \<open>Begin, read-only commit, end of scope\<close>

definition starts :: "'j tables \<Rightarrow> BalanceCache \<Rightarrow> bool \<Rightarrow> sequences \<Rightarrow> 'j server \<Rightarrow> bool" where
  "starts D C L q0 s \<longleftrightarrow> srv_db s = D \<and> srv_cache s = C \<and> srv_seqs s = q0 \<and> (lossy s \<longrightarrow> L)"

lemma triple_begin_transaction:
  "triple (starts D C L q0) (svc env begin_transaction) (\<lambda>_. reading D C L q0) (gives_up D C q0)"
  unfolding begin_transaction_def starts_def [abs_def] by (rule triple_svc, rule triple_begin)

lemma triple_commit_read:
  "triple (reading D C L q0) (commit env) (\<lambda>_. closed D q0 C) (gives_up D C q0)"
  by (rule triple_weaken [OF triple_commit_env [of q0 q0 "\<lambda>T q. T = D \<and> q = q0"]])
    (auto simp: failed_def gives_up_def untouched_def)

lemma triple_drop_tx:
  assumes "triple P m Q E" and "\<And>x s. Q x s \<Longrightarrow> Q x (s\<lparr>srv_tx := None\<rparr>)"
    and "\<And>e s. E e s \<Longrightarrow> E e (s\<lparr>srv_tx := None\<rparr>)"
  shows "triple P (drop_tx m) (\<lambda>x s. Q x s \<and> srv_tx s = None) (\<lambda>e s. E e s \<and> srv_tx s = None)"
proof (rule tripleI)
  fix s x t assume "P s" and "prun (drop_tx m) s = (Ok x, t)"
  then obtain u where "prun m s = (Ok x, u)" and "t = u\<lparr>srv_tx := None\<rparr>"
    by (auto simp: drop_tx_def prun_pbind split: prod.splits)
  with assms \<open>P s\<close> show "Q x t \<and> srv_tx t = None" by (auto dest: triple_OkD)
next
  fix s e t assume "P s" and "prun (drop_tx m) s = (Err e, t)"
  then obtain u where "prun m s = (Err e, u)" and "t = u\<lparr>srv_tx := None\<rparr>"
    by (auto simp: drop_tx_def prun_pbind split: prod.splits)
  with assms \<open>P s\<close> show "E e t \<and> srv_tx t = None" by (auto dest: triple_ErrD)
qed

lemma closed_drop [simp]: "closed T q C (s\<lparr>srv_tx := None\<rparr>) = closed T q C s"
  by (simp add: closed_def)

lemma failed_drop [simp]: "failed D C q0 L eff e (s\<lparr>srv_tx := None\<rparr>) = failed D C q0 L eff e s"
  by (simp add: failed_def untouched_def)

lemma gives_up_drop [simp]: "gives_up D C q0 e (s\<lparr>srv_tx := None\<rparr>) = gives_up D C q0 e s"
  by (simp add: gives_up_def untouched_def)

lemma Panic_not_service_error [simp]: "Panic \<noteq> service_error e"
  by (simp add: service_error_def)

lemma triple_attempt_starts:
  assumes "\<And>x. r = Ok x \<Longrightarrow> triple (starts D C L q0) (k x) Q E" and "\<And>e. r = Err e \<Longrightarrow> e \<noteq> Panic"
    and "\<And>e s. gives_up D C q0 e s \<Longrightarrow> E e s"
  shows "triple (starts D C L q0) (attempt r k) Q E"
  by (rule triple_attempt) (use assms in \<open>auto simp: gives_up_def untouched_def starts_def\<close>)

lemma triple_reject: "(\<And>s. gives_up D C q0 (service_error e) s \<Longrightarrow> E (service_error e) s) \<Longrightarrow>
    triple (starts D C L q0) (Done (Err (service_error e))) Q E"
  by (rule triple_Done_Err) (auto simp: gives_up_def untouched_def starts_def)

subsection \<open>Accounts\<close>

definition creates_account ::
    "'j tables \<Rightarrow> sequences \<Rightarrow> AccountType \<Rightarrow> string \<Rightarrow> u8 \<Rightarrow> i64 \<Rightarrow> account_row \<Rightarrow> sequences \<Rightarrow> bool" where
  "creates_account D q0 ty code sc now row q \<longleftrightarrow>
     new_account_row ty code sc now (ar_id row) row \<and> account_row_ok row
     \<and> ar_id row \<notin> ar_id ` set (tbl_accounts D) \<and> seq_le q0 q \<and> sint (ar_id row) < int (accounts_id_seq q)"

definition account_added :: "'j tables \<Rightarrow> account_row \<Rightarrow> 'j tables" where
  "account_added D row = D\<lparr>tbl_accounts := tbl_accounts D @ [row]\<rparr>"

text \<open>The account message of a row.\<close>

definition account_proto_of_row :: "account_row \<Rightarrow> ProtoAccount" where
  "account_proto_of_row r =
     \<lparr> pa_id = ar_id r, pa_account_type = scast (ar_account_type r),
       pa_normal_balance = normal_balance_to_proto (row_nb r), pa_asset_code = ar_asset_code r,
       pa_asset_scale = ucast (ucast (ar_asset_scale r) :: u8), pa_version = scast (ar_version r),
       pa_created_at = ar_created_at r \<rparr>"

lemma account_to_proto_row:
  assumes "account_of_row r = Ok a"
  shows "account_to_proto a = account_proto_of_row r"
proof -
  have "account_type_to_proto (a_account_type a) = scast (account_type_to_i16 (a_account_type a))"
    by (cases "a_account_type a") simp_all
  with account_of_row_Ok [OF assms] show ?thesis
    by (simp add: account_to_proto_def account_proto_of_row_def)
qed

lemma triple_write_cache_closed:
  "triple (closed T q C) (write_cache f) (\<lambda>_. closed T q (f C)) E"
  unfolding write_cache_def by (rule triple_atomic) (auto simp: closed_def)

lemma ucast_u8_i16 [simp]: "(ucast (ucast (sc :: u8) :: i16) :: u8) = sc"
  by (simp add: ucast_up_ucast_id is_up)

lemma new_account_row_fields:
  assumes "new_account_row ty code sc now i row"
  shows "ar_account_type row = account_type_to_i16 ty" and "ar_asset_scale row = ucast sc" and "ar_version row = 0"
    and "ar_posted_balance row = 0" and "ar_pending_balance row = 0" and "ar_created_at row = now"
    and "varchar 16 code = Ok (ar_asset_code row)"
  using assms by (auto simp: new_account_row_def)

text \<open>The handler after its checks on the request.\<close>

lemma triple_create_account_body:
  assumes inv: "tables_inv D q0" and code: "code \<noteq> []" and sc: "uint sc \<le> 18"
  shows "triple (starts D C L q0)
     (await (svc env begin_transaction) (\<lambda>_.
      await (svc env (create_account ty code sc now)) (\<lambda>account_id.
      await (commit env) (\<lambda>_.
      await (write_cache (\<lambda>c. cache_set c account_id 0 0)) (\<lambda>_.
      attempt (map_err (\<lambda>e. service_error (ServiceError_from_AccountError e))
        (Account_new account_id ty code sc 0 now)) (\<lambda>account.
      Done (Ok (account_to_proto account))))))))
     (\<lambda>resp s. \<exists>row q. creates_account D q0 ty code sc now row q
        \<and> closed (account_added D row) q (cache_set C (AccountId (ar_id row)) 0 0) s
        \<and> resp = (account_proto_of_row row)\<lparr>pa_asset_code := code\<rparr>)
     (failed D C q0 L (\<lambda>T q. \<exists>row. creates_account D q0 ty code sc now row q \<and> T = account_added D row))"
proof (rule triple_await [OF triple_gives_up [OF triple_begin_transaction]],
    rule triple_await [OF triple_gives_up [OF triple_svc [OF triple_create_account [OF inv code]]]], goal_cases)
  case (1 _ i)
  show ?case
  proof (intro triple_ex triple_pre_pure, goal_cases)
    case (1 row q)
    then have i: "i = AccountId (ar_id row)" and ok: "creates_account D q0 ty code sc now row q"
      by (simp_all add: creates_account_def)
    have "new_account_row ty code sc now (ar_id row) row" using ok by (simp add: creates_account_def)
    note row = new_account_row_fields [OF this]
    have now: "0 < sint now" using ok row by (simp add: creates_account_def account_row_ok_def)
    have type: "account_type_to_proto ty = scast (account_type_to_i16 ty)"
      "normal_balance ty = row_nb row"
      unfolding row_nb_def row by (cases ty; simp)+
    have new: "Account_new i ty code sc 0 now =
        Ok \<lparr> a_id = i, a_account_type = ty, a_asset_code = code, a_asset_scale = sc, a_version = 0, a_created_at = now \<rparr>"
      using code sc now by (intro Account_new_eq_Ok) simp_all
    have le: "seq_le q0 q" using ok by (simp add: creates_account_def)
    show ?case unfolding new map_err.simps attempt_Ok account_added_def [symmetric]
      by (rule triple_await [OF triple_commit_env [OF le]], use ok in blast,
          rule triple_await [OF triple_write_cache_closed], rule triple_Done_Ok,
          rule exI [of _ row], rule exI [of _ q])
        (use ok i row type in \<open>simp add: account_to_proto_def account_proto_of_row_def Account_normal_balance_def\<close>)
  qed
qed

lemma triple_rpc_create_account:
  assumes inv: "tables_inv D q0"
  shows "triple (starts D C L q0) (rpc_create_account env req)
     (\<lambda>resp s. (\<exists>ty row q. proto_to_account_type (car_account_type req) = Ok ty
        \<and> creates_account D q0 ty (car_asset_code req) (ucast (car_asset_scale req)) (env_now env) row q
        \<and> closed (account_added D row) q (cache_set C (AccountId (ar_id row)) 0 0) s
        \<and> resp = (account_proto_of_row row)\<lparr>pa_asset_code := car_asset_code req\<rparr>) \<and> srv_tx s = None)
     (\<lambda>e s. failed D C q0 L (\<lambda>T q. \<exists>ty row.
         creates_account D q0 ty (car_asset_code req) (ucast (car_asset_scale req)) (env_now env) row q
         \<and> T = account_added D row) e s \<and> srv_tx s = None)"
  unfolding rpc_create_account_def Let_def
proof (rule triple_drop_tx, rule triple_attempt_starts, goal_cases)
  case (1 ty)
  then have ty: "proto_to_account_type (car_account_type req) = Ok ty" by (simp add: result_simps)
  show ?case
  proof (intro triple_if triple_reject, goal_cases)
    case 3
    then show ?case
      by (intro triple_weaken [OF triple_create_account_body [OF inv, where ty = ty]])
        (use ty in \<open>auto simp: failed_def\<close>)
  qed (erule gives_up_failed)+
qed (simp_all add: result_simps gives_up_failed, auto)

lemma triple_rpc_get_account:
  "triple (starts D C L q0) (rpc_get_account env i)
     (\<lambda>resp s. (closed D q0 C s \<and> 0 < sint i
        \<and> (\<exists>r a. find (\<lambda>r. ar_id r = i) (tbl_accounts D) = Some r \<and> account_of_row r = Ok a \<and> resp = account_to_proto a))
        \<and> srv_tx s = None)
     (\<lambda>e s. gives_up D C q0 e s \<and> srv_tx s = None)"
  unfolding rpc_get_account_def get_account_def
proof (rule triple_drop_tx, rule triple_attempt_starts, goal_cases)
  case (1 account_id)
  then have i: "account_id = AccountId i" "0 < sint i" by (simp_all add: result_simps)
  show ?case
  proof (rule triple_await [OF triple_begin_transaction], rule triple_await [OF triple_svc [OF triple_fetch_account]],
      rule triple_pre_pure, rule triple_attempt_tx, goal_cases)
    case (1 _ x a)
    then show ?case
      by (intro triple_await [OF triple_commit_read] triple_Done_Ok)
        (use i in \<open>auto simp: result_simps split: option.splits\<close>)
  qed (auto simp: result_simps)
qed (auto simp: result_simps)

lemma triple_rpc_get_balance:
  "triple (starts D C L q0) (rpc_get_balance env i)
     (\<lambda>resp s. starts D C L q0 s \<and> 0 < sint i \<and> (\<exists>b. cache_get C (AccountId i) = Some b
        \<and> resp = \<lparr> pb_posted = b_posted b, pb_pending = b_pending b, pb_available = b_available b \<rparr>))
     (\<lambda>e s. starts D C L q0 s \<and> e \<noteq> Panic)"
  unfolding rpc_get_balance_def
  by (rule triple_attempt, rule triple_await [where R = "\<lambda>x s. x = cache_get C (AccountId i) \<and> starts D C L q0 s"],
      unfold read_cache_def, rule triple_atomic)
    (auto simp: result_simps starts_def intro!: triple_pre_pure triple_attempt triple_Done_Ok)

lemma triple_rpc_get_entries:
  assumes "tables_inv D q0"
  shows "triple (starts D C L q0) (rpc_get_entries env i)
     (\<lambda>resp s. (closed D q0 C s \<and> i \<in> ar_id ` set (tbl_accounts D) \<and> (\<exists>es. resp = map entry_to_proto es
        \<and> row_entries (filter (\<lambda>r. er_account_id r = i) (tbl_entries D)) es)) \<and> srv_tx s = None)
     (\<lambda>e s. gives_up D C q0 e s \<and> srv_tx s = None)"
  unfolding rpc_get_entries_def get_account_def
proof (rule triple_drop_tx, rule triple_attempt_starts, goal_cases)
  case (1 account_id)
  then have i: "account_id = AccountId i" "0 < sint i" by (simp_all add: result_simps)
  show ?case
  proof (rule triple_await [OF triple_begin_transaction], rule triple_await [OF triple_svc [OF triple_fetch_account]],
      rule triple_pre_pure, rule triple_attempt_tx, goal_cases)
    case (1 _ x a)
    then have "i \<in> ar_id ` set (tbl_accounts D)"
      using i by (auto simp: result_simps split: option.splits dest!: find_SomeD)
    then show ?case
      by (intro triple_await [OF triple_svc [OF triple_get_entries_for_account [OF assms]]] triple_pre_pure
          triple_await [OF triple_commit_read] triple_Done_Ok)
        (use i in \<open>auto simp: row_entries_def\<close>)
  qed (auto simp: result_simps)
qed (auto simp: result_simps)

subsection \<open>Authorize\<close>

lemma triple_rpc_authorize:
  assumes inv: "tables_inv D q0"
  shows "triple (starts D C L q0) (rpc_authorize env req)
     (\<lambda>resp s. (case find (\<lambda>r. tr_idempotency_key r = aur_idempotency_key req) (tbl_transactions D) of
          Some t \<Rightarrow> closed D q0 C s \<and> (\<exists>es. row_entries (of_txn (tr_id t) (tbl_entries D)) es
            \<and> resp = \<lparr> aus_transaction = proto_of_row t, aus_entries = map entry_to_proto es \<rparr>)
        | None \<Rightarrow> \<exists>metadata legs t rs us q es. parse_transfer_legs (aur_legs req) = Ok legs
            \<and> validate_transaction_balance legs = Ok ()
            \<and> authorizes D C q0 (aur_idempotency_key req) metadata legs (env_now env) t rs us q
            \<and> closed (authorized D t rs us) q (apply_deltas C us) s \<and> row_entries rs es
            \<and> resp = \<lparr> aus_transaction = (proto_of_row t)\<lparr>pt_idempotency_key := aur_idempotency_key req\<rparr>,
                       aus_entries = map entry_to_proto es \<rparr>) \<and> srv_tx s = None)
     (\<lambda>e s. failed D C q0 L (\<lambda>T q. \<exists>metadata legs t rs us. parse_transfer_legs (aur_legs req) = Ok legs
            \<and> validate_transaction_balance legs = Ok ()
            \<and> authorizes D C q0 (aur_idempotency_key req) metadata legs (env_now env) t rs us q
            \<and> T = authorized D t rs us) e s \<and> srv_tx s = None)"
  unfolding rpc_authorize_def Let_def
proof (rule triple_drop_tx, rule triple_if, rule triple_reject, erule gives_up_failed,
    intro triple_attempt_starts, goal_cases)
  case (1 metadata legs u)
  then have key: "aur_idempotency_key req \<noteq> []" and legs: "parse_transfer_legs (aur_legs req) = Ok legs"
    "validate_transaction_balance legs = Ok ()" by (simp_all add: result_simps)
  show ?case
  proof (rule triple_await [OF triple_gives_up [OF triple_begin_transaction]],
      rule triple_await [OF triple_gives_up [OF triple_svc [OF triple_find_transaction_by_key]]], rule triple_pre_pure, goal_cases)
    case (1 _ x)
    show ?case
    proof (cases "find (\<lambda>r. tr_idempotency_key r = aur_idempotency_key req) (tbl_transactions D)")
      case None
      with 1 show ?thesis
        by (auto intro!: triple_weaken [OF triple_authorize_new [OF inv key, where metadata = metadata and legs = legs]] 
            simp: failed_def legs) (use legs in blast)+
    next
      case (Some t)
      with 1 obtain transaction where t: "transaction_of_row t = Ok transaction" "x = Some transaction" by auto
      have i: "transaction_id_value (t_id transaction) = tr_id t" using transaction_of_row_Ok(1) [OF t(1)] by simp
      show ?thesis unfolding t Some option.case transaction_to_proto_row [OF t(1)]
        by (intro triple_await [OF triple_gives_up [OF triple_svc [OF triple_get_entries_for_transaction [OF inv]]]] triple_pre_pure
            triple_await [OF triple_gives_up [OF triple_commit_read]] triple_await [OF triple_count_closed] triple_Done_Ok)
          (auto simp: i row_entries_def)
    qed
  qed
qed (simp_all add: result_simps gives_up_failed cong: option.case_cong, auto)

subsection \<open>Capture and void\<close>

lemma triple_rpc_capture:
  assumes inv: "tables_inv D q0"
  shows "triple (starts D C L q0) (rpc_capture env i)
     (\<lambda>resp s. (\<exists>t. find (\<lambda>r. tr_id r = i) (tbl_transactions D) = Some t
        \<and> (if tr_status t = 2 then closed D q0 C s \<and> resp = proto_of_row t
           else tr_status t = 1 \<and> (\<exists>us. settles D t 2 (Some (env_now env)) 1 (- 1) us
             \<and> closed (settled D i 2 (Some (env_now env)) us) q0 (apply_deltas C us) s
             \<and> resp = proto_of_row (settle_row i 2 (Some (env_now env)) t)))) \<and> srv_tx s = None)
     (\<lambda>e s. failed D C q0 L (\<lambda>T q. \<exists>t us. t \<in> set (tbl_transactions D) \<and> tr_id t = i \<and> tr_status t = 1
         \<and> settles D t 2 (Some (env_now env)) 1 (- 1) us
         \<and> T = settled D i 2 (Some (env_now env)) us \<and> q = q0) e s \<and> srv_tx s = None)"
  unfolding rpc_capture_def Let_def
proof (rule triple_drop_tx, rule triple_attempt_starts, goal_cases)
  case (1 transaction_id)
  then have i: "transaction_id = TransactionId i" by (simp add: result_simps)
  show ?case unfolding i
  proof (rule triple_await [OF triple_gives_up [OF triple_begin_transaction]],
      rule triple_await [OF triple_gives_up [OF triple_svc [OF triple_get_transaction]]],
      rule triple_pre_pure, rule triple_attempt_tx, goal_cases)
    case (1 _ x transaction)
    then obtain t where find: "find (\<lambda>r. tr_id r = i) (tbl_transactions D) = Some t"
      and t: "transaction_of_row t = Ok transaction" by (auto simp: result_simps split: option.splits)
    from find_SomeD [OF find] have t': "t \<in> set (tbl_transactions D)" "tr_id t = i" by simp_all
    show ?case
    proof (intro triple_if, goal_cases)
      case 1
      then have "tr_status t = 2" using transaction_of_row_Ok(3) [OF t] by simp
      with find show ?case unfolding transaction_to_proto_row [OF t]
        by (intro triple_await [OF triple_gives_up [OF triple_commit_read]] triple_await [OF triple_count_closed] triple_Done_Ok)
          simp
    next
      case 2
      show ?case by (rule triple_Done_Err) (auto simp: failed_def)
    next
      case 3
      then have st: "tr_status t = 1" using transaction_of_row_Ok(3) [OF t] by simp
      show ?case unfolding capture_pending_settle t'(2) [symmetric]
        by (rule triple_weaken [OF capturing.triple_settle [OF inv t'(1) t refl]])
          (use find t' st in \<open>auto simp: failed_def\<close>)
    qed
  qed (auto simp: result_simps gives_up_failed)
qed (simp_all add: result_simps gives_up_failed, auto)

lemma triple_rpc_void:
  assumes inv: "tables_inv D q0"
  shows "triple (starts D C L q0) (rpc_void env i)
     (\<lambda>resp s. (\<exists>t. find (\<lambda>r. tr_id r = i) (tbl_transactions D) = Some t
        \<and> (if tr_status t = 3 then closed D q0 C s \<and> resp = proto_of_row t
           else tr_status t = 1 \<and> (\<exists>us. settles D t 3 None 0 (- 1) us
             \<and> closed (settled D i 3 None us) q0 (apply_deltas C us) s
             \<and> resp = proto_of_row (settle_row i 3 None t)))) \<and> srv_tx s = None)
     (\<lambda>e s. failed D C q0 L (\<lambda>T q. \<exists>t us. t \<in> set (tbl_transactions D) \<and> tr_id t = i \<and> tr_status t = 1
         \<and> settles D t 3 None 0 (- 1) us
         \<and> T = settled D i 3 None us \<and> q = q0) e s \<and> srv_tx s = None)"
  unfolding rpc_void_def Let_def
proof (rule triple_drop_tx, rule triple_attempt_starts, goal_cases)
  case (1 transaction_id)
  then have i: "transaction_id = TransactionId i" by (simp add: result_simps)
  show ?case unfolding i
  proof (rule triple_await [OF triple_gives_up [OF triple_begin_transaction]],
      rule triple_await [OF triple_gives_up [OF triple_svc [OF triple_get_transaction]]],
      rule triple_pre_pure, rule triple_attempt_tx, goal_cases)
    case (1 _ x transaction)
    then obtain t where find: "find (\<lambda>r. tr_id r = i) (tbl_transactions D) = Some t"
      and t: "transaction_of_row t = Ok transaction" by (auto simp: result_simps split: option.splits)
    from find_SomeD [OF find] have t': "t \<in> set (tbl_transactions D)" "tr_id t = i" by simp_all
    show ?case
    proof (intro triple_if, goal_cases)
      case 1
      then have "tr_status t = 3" using transaction_of_row_Ok(3) [OF t] by simp
      with find show ?case unfolding transaction_to_proto_row [OF t]
        by (intro triple_await [OF triple_gives_up [OF triple_commit_read]] triple_await [OF triple_count_closed] triple_Done_Ok)
          simp
    next
      case 2
      show ?case by (rule triple_Done_Err) (auto simp: failed_def)
    next
      case 3
      then have st: "tr_status t = 1" using transaction_of_row_Ok(3) [OF t] by simp
      show ?case unfolding void_pending_settle t'(2) [symmetric]
        by (rule triple_weaken [OF voiding.triple_settle [OF inv t'(1) t refl]])
          (use find t' st in \<open>auto simp: failed_def\<close>)
    qed
  qed (auto simp: result_simps gives_up_failed)
qed (simp_all add: result_simps gives_up_failed, auto)

end
