(* ===== verification/Guarantees.thy ===== *)
theory Guarantees
  imports Service
begin

section \<open>What every handler guarantees\<close>

text \<open>
  The contract of an RPC handler: on tables that satisfy the ledger invariant it does not
  panic, keeps the invariant, only extends the history, leaves the cache coherent, and if it
  reports an error it changed nothing, unless a reply of the database was lost. All seven
  handlers interpret the contract, for every request and every list of faults.
\<close>

subsection \<open>The committed effects keep the invariant\<close>

lemma parse_transfer_leg_ok: "parse_transfer_leg pl = Ok leg \<Longrightarrow> leg_ok leg"
  by (auto simp: parse_transfer_leg_def result_simps leg_ok_def sint_pos_iff)

lemma parse_transfer_legs_ok: "parse_transfer_legs pls = Ok legs \<Longrightarrow> leg \<in> set legs \<Longrightarrow> leg_ok leg"
  by (auto simp: parse_transfer_legs_def map_result_eq_Ok_iff list_all2_conv_all_nth in_set_conv_nth
      dest: parse_transfer_leg_ok)

lemma row_et_leg_row [simp]: "row_et (leg_row tid now leg i) = l_entry_type leg"
  by (cases "l_entry_type leg") (simp_all add: row_et_def leg_row_def)

lemma leg_rows_sums:
  assumes "leg_rows tid now legs rs"
  shows "side_sum ET_Debit rs = debits legs" and "side_sum ET_Credit rs = credits legs"
proof -
  have amount: "sint (er_amount r) = sint (amount_value (l_amount leg)) \<and> row_et r = l_entry_type leg"
    if "r = leg_row tid now leg (er_id r)" for r leg
    using that by (metis entry_row.select_convs(5) leg_row_def row_et_leg_row)
  show "side_sum ET_Debit rs = debits legs" and "side_sum ET_Credit rs = credits legs"
    using assms unfolding leg_rows_def by (induction rule: list_all2_induct) (simp_all add: amount)
qed

definition good_step :: "'j tables \<Rightarrow> sequences \<Rightarrow> 'j tables \<Rightarrow> sequences \<Rightarrow> bool" where
  "good_step D q0 T q \<longleftrightarrow> tables_inv T q \<and> evolves D T \<and> seq_le q0 q"

lemma good_step_refl: "tables_inv D q0 \<Longrightarrow> good_step D q0 D q0"
  by (simp add: good_step_def)

lemma distinct_account_ids: "tables_inv D q \<Longrightarrow> distinct (map ar_id (tbl_accounts D))"
  by (simp add: tables_inv_def accounts_wf_def)

lemma creates_account_good:
  assumes "tables_inv D q0" and "creates_account D q0 ty code sc now row q"
  shows "good_step D q0 (account_added D row) q"
proof -
  have "new_account_row ty code sc now (ar_id row) row" using assms(2) by (simp add: creates_account_def)
  note row = new_account_row_fields [OF this]
  show ?thesis
    using add_account_inv [OF assms(1), of q row] evolves_add_account [of D row] assms(2) row(4,5)
    by (simp add: good_step_def creates_account_def account_added_def)
qed

lemma authorizes_good:
  assumes inv: "tables_inv D q0" and "parse_transfer_legs pls = Ok legs" and "validate_transaction_balance legs = Ok ()"
    and auth: "authorizes D C q0 key metadata legs now t rs us q"
  shows "good_step D q0 (authorized D t rs us) q"
proof -
  have "debits legs = credits legs \<and> debits legs < 2 ^ 63"
    using validate_transaction_balance_Ok [of legs] parse_transfer_legs_ok [OF assms(2)] assms(3) by blast
  then have sums: "side_sum ET_Debit rs = side_sum ET_Credit rs" "side_sum ET_Debit rs < 2 ^ 63"
    using leg_rows_sums [of "tr_id t" now legs rs] auth by (simp_all add: authorizes_def)
  have us: "updates_for 0 1 (nb_in D) (map row_item rs) us"
    using auth leg_rows_items [of "tr_id t" now legs rs] by (simp add: authorizes_def)
  have "tables_inv (authorized D t rs us) q"
    by (rule authorized_inv [OF inv _ _ _ sums us])
      (use auth nb_in_row [OF distinct_account_ids [OF inv]] in \<open>auto simp: authorizes_def\<close>)
  then show ?thesis
    using auth evolves_authorized [of D us t rs] by (simp add: good_step_def authorizes_def)
qed

lemma settles_good:
  assumes inv: "tables_inv D q0" and t: "t \<in> set (tbl_transactions D)" "tr_status t = 1"
    and "settles D t st pa cp cq us"
  shows "good_step D q0 (settled D (tr_id t) st pa us) q0"
proof -
  have "tables_inv (settled D (tr_id t) st pa us) q0"
    by (rule settled_inv [OF inv _ t])
      (use assms(4) nb_in_row [OF distinct_account_ids [OF inv]] in \<open>auto simp: settles_def\<close>)
  moreover have "evolves D (settled D (tr_id t) st pa us)"
    by (rule evolves_settled [OF inv t]) (use assms(4) in \<open>auto simp: settles_def\<close>)
  ultimately show ?thesis by (simp add: good_step_def)
qed

subsection \<open>The contract\<close>

definition safe_outcome :: "'j server \<Rightarrow> ('a, abort) result \<times> 'j server \<Rightarrow> bool" where
  "safe_outcome s out \<longleftrightarrow>
     (case out of (r, t) \<Rightarrow>
        r \<noteq> Err Panic
        \<and> good_step (srv_db s) (srv_seqs s) (srv_db t) (srv_seqs t)
        \<and> (cache_coherent s \<and> (is_ok r \<or> \<not> lossy s) \<longrightarrow> cache_coherent t)
        \<and> (\<not> is_ok r \<and> \<not> lossy s \<longrightarrow> srv_db t = srv_db s \<and> srv_cache t = srv_cache s))"

lemma safe_outcomeI:
  assumes inv: "ledger_inv s"
    and tr: "triple (starts (srv_db s) (srv_cache s) (lossy s) (srv_seqs s)) m Q E"
    and ok: "\<And>x t. Q x t \<Longrightarrow> good_step (srv_db s) (srv_seqs s) (srv_db t) (srv_seqs t)
        \<and> (mirrors (srv_cache s) (tbl_accounts (srv_db s)) \<longrightarrow> mirrors (srv_cache t) (tbl_accounts (srv_db t)))"
    and err: "\<And>e t. E e t \<Longrightarrow> \<exists>eff. failed (srv_db s) (srv_cache s) (srv_seqs s) (lossy s) eff e t
        \<and> (\<forall>T q. eff T q \<longrightarrow> good_step (srv_db s) (srv_seqs s) T q)"
  shows "safe_outcome s (prun m s)"
proof -
  have start: "starts (srv_db s) (srv_cache s) (lossy s) (srv_seqs s) s" by (simp add: starts_def)
  obtain r t where run: "prun m s = (r, t)" by force
  show ?thesis
  proof (cases r)
    case (Ok x)
    with ok triple_OkD [OF tr start] run show ?thesis by (auto simp: safe_outcome_def cache_coherent_def)
  next
    case (Err e)
    with run triple_ErrD [OF tr start] have "E e t" by simp
    from err [OF this] obtain eff where f: "failed (srv_db s) (srv_cache s) (srv_seqs s) (lossy s) eff e t"
      and eff: "\<And>T q. eff T q \<Longrightarrow> good_step (srv_db s) (srv_seqs s) T q" by blast
    have "good_step (srv_db s) (srv_seqs s) (srv_db t) (srv_seqs t)"
    proof (cases "untouched (srv_db s) (srv_cache s) (srv_seqs s) t")
      case True
      then show ?thesis
        using inv tables_inv_seq_mono [of "srv_db s" "srv_seqs s" "srv_seqs t"]
        by (simp add: good_step_def untouched_def ledger_inv_def)
    next
      case False
      with f eff show ?thesis by (simp add: failed_def)
    qed
    with f Err run show ?thesis by (auto simp: safe_outcome_def failed_def untouched_def cache_coherent_def)
  qed
qed

locale rpc_handler =
  fixes handler :: "'req \<Rightarrow> ('j, 'a) rpc"
  assumes outcome: "ledger_inv s \<Longrightarrow> safe_outcome s (prun (handler req) s)"
begin

lemma no_panic: "ledger_inv s \<Longrightarrow> fst (prun (handler req) s) \<noteq> Err Panic"
  using outcome [of s req] by (auto simp: safe_outcome_def split: prod.splits)

lemma keeps_inv: "ledger_inv s \<Longrightarrow> ledger_inv (snd (prun (handler req) s))"
  using outcome [of s req] by (auto simp: safe_outcome_def good_step_def ledger_inv_def split: prod.splits)

lemma keeps_history: "ledger_inv s \<Longrightarrow> evolves (srv_db s) (srv_db (snd (prun (handler req) s)))"
  using outcome [of s req] by (auto simp: safe_outcome_def good_step_def split: prod.splits)

lemma keeps_cache:
  "ledger_inv s \<Longrightarrow> cache_coherent s \<Longrightarrow> \<not> lossy s \<Longrightarrow> cache_coherent (snd (prun (handler req) s))"
  using outcome [of s req] by (auto simp: safe_outcome_def split: prod.splits)

lemma error_changes_nothing:
  "ledger_inv s \<Longrightarrow> \<not> lossy s \<Longrightarrow> prun (handler req) s = (Err e, t) \<Longrightarrow>
   srv_db t = srv_db s \<and> srv_cache t = srv_cache s"
  using outcome [of s req] by (auto simp: safe_outcome_def)

end

subsection \<open>The seven handlers\<close>

lemma gives_up_err:
  "gives_up D C q0 e t \<Longrightarrow> \<exists>eff. failed D C q0 L eff e t \<and> (\<forall>T q. eff T q \<longrightarrow> good_step D q0 T q)"
  by (intro exI [of _ "\<lambda>T q. False"]) (simp add: gives_up_failed)

lemma closed_same:
  "tables_inv D q0 \<Longrightarrow> closed D q0 C t \<Longrightarrow>
   good_step D q0 (srv_db t) (srv_seqs t) \<and> (mirrors C (tbl_accounts D) \<longrightarrow> mirrors (srv_cache t) (tbl_accounts (srv_db t)))"
  by (simp add: closed_def good_step_refl)

lemma authorized_closed:
  assumes "tables_inv D q0" and "good_step D q0 (authorized D t rs us) q" and "authorizes D C q0 key metadata legs now t rs us q"
    and "closed (authorized D t rs us) q (apply_deltas C us) s"
  shows "good_step D q0 (srv_db s) (srv_seqs s)
    \<and> (mirrors C (tbl_accounts D) \<longrightarrow> mirrors (srv_cache s) (tbl_accounts (srv_db s)))"
proof -
  have "distinct (map fst us)" and "\<And>a. a \<in> set (tbl_accounts D) \<Longrightarrow> bump_ok us a"
    using assms(3) unfolding authorizes_def updates_for_def by blast+
  from mirrors_bump [OF _ distinct_account_ids [OF assms(1)] this] assms(2,4) show ?thesis
    by (simp add: closed_def) (simp add: authorized_def)
qed

lemma settled_closed:
  assumes "tables_inv D q0" and "t \<in> set (tbl_transactions D)" "tr_status t = 1" and "settles D t st pa cp cq us"
    and "closed (settled D (tr_id t) st pa us) q0 (apply_deltas C us) s"
  shows "good_step D q0 (srv_db s) (srv_seqs s)
    \<and> (mirrors C (tbl_accounts D) \<longrightarrow> mirrors (srv_cache s) (tbl_accounts (srv_db s)))"
proof -
  have "distinct (map fst us)" and "\<And>a. a \<in> set (tbl_accounts D) \<Longrightarrow> bump_ok us a"
    using assms(4) unfolding settles_def updates_for_def by blast+
  from mirrors_bump [OF _ distinct_account_ids [OF assms(1)] this] settles_good [OF assms(1-4)] assms(5) show ?thesis
    by (simp add: closed_def) (simp add: settled_def)
qed

lemma account_added_closed:
  assumes "tables_inv D q0" and "creates_account D q0 ty code sc now row q"
    and "closed (account_added D row) q (cache_set C (AccountId (ar_id row)) 0 0) s"
  shows "good_step D q0 (srv_db s) (srv_seqs s)
    \<and> (mirrors C (tbl_accounts D) \<longrightarrow> mirrors (srv_cache s) (tbl_accounts (srv_db s)))"
proof -
  have "new_account_row ty code sc now (ar_id row) row" and "ar_id row \<notin> ar_id ` set (tbl_accounts D)"
    using assms(2) by (simp_all add: creates_account_def)
  from mirrors_add [OF _ this(2) new_account_row_fields(4,5) [OF this(1)]] creates_account_good [OF assms(1,2)] assms(3)
  show ?thesis by (simp add: closed_def) (simp add: account_added_def)
qed

lemma create_account_outcome:
  assumes "ledger_inv s"
  shows "safe_outcome s (prun (rpc_create_account env req) s)"
proof -
  have inv: "tables_inv (srv_db s) (srv_seqs s)" using assms by (simp add: ledger_inv_def)
  show ?thesis
  proof (rule safe_outcomeI [OF assms triple_rpc_create_account [OF inv]], goal_cases)
    case (1 x t)
    then show ?case using account_added_closed [OF inv] by blast
  next
    case (2 e t)
    then show ?case using creates_account_good [OF inv] by blast
  qed
qed

lemma authorize_outcome:
  assumes "ledger_inv s"
  shows "safe_outcome s (prun (rpc_authorize env req) s)"
proof -
  have inv: "tables_inv (srv_db s) (srv_seqs s)" using assms by (simp add: ledger_inv_def)
  show ?thesis
  proof (rule safe_outcomeI [OF assms triple_rpc_authorize [OF inv]], goal_cases)
    case (1 x t)
    then show ?case
      using closed_same [OF inv] authorized_closed [OF inv authorizes_good [OF inv]]
      by (auto split: option.splits; metis)
  next
    case (2 e t)
    then show ?case using authorizes_good [OF inv] by blast
  qed
qed

lemma capture_outcome:
  assumes "ledger_inv s"
  shows "safe_outcome s (prun (rpc_capture env i) s)"
proof -
  have inv: "tables_inv (srv_db s) (srv_seqs s)" using assms by (simp add: ledger_inv_def)
  show ?thesis
  proof (rule safe_outcomeI [OF assms triple_rpc_capture [OF inv]], goal_cases)
    case (1 x t)
    then show ?case
      using closed_same [OF inv] settled_closed [OF inv] by (auto split: if_splits dest!: find_SomeD)
  next
    case (2 e t)
    then show ?case using settles_good [OF inv] by blast
  qed
qed

lemma void_outcome:
  assumes "ledger_inv s"
  shows "safe_outcome s (prun (rpc_void env i) s)"
proof -
  have inv: "tables_inv (srv_db s) (srv_seqs s)" using assms by (simp add: ledger_inv_def)
  show ?thesis
  proof (rule safe_outcomeI [OF assms triple_rpc_void [OF inv]], goal_cases)
    case (1 x t)
    then show ?case
      using closed_same [OF inv] settled_closed [OF inv] by (auto split: if_splits dest!: find_SomeD)
  next
    case (2 e t)
    then show ?case using settles_good [OF inv] by blast
  qed
qed

lemma get_account_outcome:
  assumes "ledger_inv s"
  shows "safe_outcome s (prun (rpc_get_account env i) s)"
proof -
  have inv: "tables_inv (srv_db s) (srv_seqs s)" using assms by (simp add: ledger_inv_def)
  show ?thesis
    by (rule safe_outcomeI [OF assms triple_rpc_get_account])
      (use closed_same [OF inv] gives_up_err in blast)+
qed

lemma get_entries_outcome:
  assumes "ledger_inv s"
  shows "safe_outcome s (prun (rpc_get_entries env i) s)"
proof -
  have inv: "tables_inv (srv_db s) (srv_seqs s)" using assms by (simp add: ledger_inv_def)
  show ?thesis
    by (rule safe_outcomeI [OF assms triple_rpc_get_entries [OF inv]])
      (use closed_same [OF inv] gives_up_err in blast)+
qed

lemma get_balance_outcome:
  assumes "ledger_inv s"
  shows "safe_outcome s (prun (rpc_get_balance env i) s)"
proof -
  have inv: "tables_inv (srv_db s) (srv_seqs s)" using assms by (simp add: ledger_inv_def)
  show ?thesis
  proof (rule safe_outcomeI [OF assms triple_rpc_get_balance], goal_cases)
    case (1 x t)
    then show ?case using closed_same [OF inv] by (auto simp: starts_def closed_def)
  next
    case (2 e t)
    then show ?case by (intro gives_up_err) (auto simp: starts_def gives_up_def untouched_def)
  qed
qed

interpretation creating: rpc_handler "rpc_create_account env" for env
  by unfold_locales (rule create_account_outcome)

interpretation authorizing: rpc_handler "rpc_authorize env" for env
  by unfold_locales (rule authorize_outcome)

interpretation capture_rpc: rpc_handler "rpc_capture env" for env
  by unfold_locales (rule capture_outcome)

interpretation void_rpc: rpc_handler "rpc_void env" for env
  by unfold_locales (rule void_outcome)

interpretation get_account_rpc: rpc_handler "rpc_get_account env" for env
  by unfold_locales (rule get_account_outcome)

interpretation get_balance_rpc: rpc_handler "rpc_get_balance env" for env
  by unfold_locales (rule get_balance_outcome)

interpretation get_entries_rpc: rpc_handler "rpc_get_entries env" for env
  by unfold_locales (rule get_entries_outcome)

end
