(* ===== verification/Books.thy ===== *)
theory Books
  imports Effects
begin

section \<open>The books balance\<close>

text \<open>
  Consequences of the invariant for the ledger as a whole: the entries of any lifecycle
  state have equal debits and credits, and therefore the balances of the debit-normal
  accounts add up to those of the credit-normal accounts (the trial balance).
\<close>

lemma balanced_by_status:
  assumes inv: "tables_inv T q"
  shows "side_sum ET_Debit (filter (\<lambda>e. P (er_status e)) (tbl_entries T))
       = side_sum ET_Credit (filter (\<lambda>e. P (er_status e)) (tbl_entries T))"
proof -
  let ?es = "filter (\<lambda>e. P (er_status e)) (tbl_entries T)" and ?ks = "map tr_id (tbl_transactions T)"
  have ks: "distinct ?ks" using inv by (simp add: tables_inv_def transactions_wf_def)
  have keys: "er_transaction_id e \<in> set ?ks" if "e \<in> set ?es" for e
    using reference_txn [OF inv, of e] that by force
  have zero: "sum_list (map (row_delta NB_Debit) (filter (\<lambda>e. er_transaction_id e = tr_id t) ?es)) = 0"
    if t: "t \<in> set (tbl_transactions T)" for t
  proof (cases "P (tr_status t)")
    case True
    have "filter (\<lambda>e. er_transaction_id e = tr_id t) ?es = of_txn (tr_id t) (tbl_entries T)"
      unfolding of_txn_def filter_filter
      by (rule filter_cong) (use pending_entries [OF inv t] True in \<open>auto simp: of_txn_def\<close>)
    with inv t show ?thesis by (simp add: sum_row_delta tables_inv_def txns_balanced_def)
  next
    case False
    then have "filter (\<lambda>e. er_transaction_id e = tr_id t) ?es = []"
      using pending_entries [OF inv t] by (auto simp: of_txn_def filter_empty_conv)
    then show ?thesis by simp
  qed
  have nets: "map (\<lambda>k. sum_list (map (row_delta NB_Debit) (filter (\<lambda>e. er_transaction_id e = k) ?es))) ?ks = map (\<lambda>_. 0) ?ks"
    using zero by simp
  have "sum_list (map (row_delta NB_Debit) ?es) = 0"
    by (rule trans [OF sum_list_by_key [where key = er_transaction_id and f = "row_delta NB_Debit", OF ks keys]])
      (simp_all only: nets sum_list_0)
  then show ?thesis by (simp add: sum_row_delta)
qed

text \<open>The sum of one balance over the accounts of one normal side.\<close>

definition side_total :: "NormalBalance \<Rightarrow> (account_row \<Rightarrow> i64) \<Rightarrow> 'j tables \<Rightarrow> int" where
  "side_total nb bal T = sum_list (map (\<lambda>a. sint (bal a)) (filter (\<lambda>a. row_nb a = nb) (tbl_accounts T)))"

lemma side_total_diff:
  "side_total NB_Debit bal T - side_total NB_Credit bal T =
     sum_list (map (\<lambda>a. if row_nb a = NB_Debit then sint (bal a) else - sint (bal a)) (tbl_accounts T))"
proof -
  have "sum_list (map (\<lambda>a. sint (bal a)) (filter (\<lambda>a. row_nb a = NB_Debit) as))
      - sum_list (map (\<lambda>a. sint (bal a)) (filter (\<lambda>a. row_nb a = NB_Credit) as))
      = sum_list (map (\<lambda>a. if row_nb a = NB_Debit then sint (bal a) else - sint (bal a)) as)" for as
  proof (induction as)
    case (Cons a as)
    then show ?case by (cases "row_nb a") auto
  qed simp
  then show ?thesis by (simp add: side_total_def)
qed

lemma trial_balance_status:
  assumes inv: "tables_inv T q"
    and bal: "\<And>a. a \<in> set (tbl_accounts T) \<Longrightarrow> sint (bal a) = account_sum st a (tbl_entries T)"
  shows "side_total NB_Debit bal T = side_total NB_Credit bal T"
proof -
  let ?es = "filter (\<lambda>e. er_status e = st) (tbl_entries T)" and ?ks = "map ar_id (tbl_accounts T)"
  have ks: "distinct ?ks" using inv by (simp add: tables_inv_def accounts_wf_def)
  have keys: "er_account_id e \<in> set ?ks" if "e \<in> set ?es" for e
    using inv that by (auto simp: tables_inv_def references_ok_def)
  have acct: "(if row_nb a = NB_Debit then sint (bal a) else - sint (bal a))
      = sum_list (map (row_delta NB_Debit) (filter (\<lambda>e. er_account_id e = ar_id a) ?es))"
    if "a \<in> set (tbl_accounts T)" for a
    unfolding bal [OF that] account_sum_def filter_filter
    by (cases "row_nb a") (simp_all add: sum_row_delta conj_commute)
  have "side_total NB_Debit bal T - side_total NB_Credit bal T
      = sum_list (map (\<lambda>k. sum_list (map (row_delta NB_Debit) (filter (\<lambda>e. er_account_id e = k) ?es))) ?ks)"
    unfolding side_total_diff by (rule arg_cong [where f = sum_list]) (simp add: acct)
  also have "\<dots> = sum_list (map (row_delta NB_Debit) ?es)"
    by (rule sum_list_by_key [OF ks, symmetric]) (use keys in blast)
  also have "\<dots> = 0" using balanced_by_status [OF inv, of "\<lambda>x. x = st"] by (simp add: sum_row_delta)
  finally show ?thesis by simp
qed

lemma trial_balance_posted:
  "tables_inv T q \<Longrightarrow> side_total NB_Debit ar_posted_balance T = side_total NB_Credit ar_posted_balance T"
  by (rule trial_balance_status [where st = 2], assumption) (simp add: tables_inv_def balances_ok_def)

lemma trial_balance_pending:
  "tables_inv T q \<Longrightarrow> side_total NB_Debit ar_pending_balance T = side_total NB_Credit ar_pending_balance T"
  by (rule trial_balance_status [where st = 1], assumption) (simp add: tables_inv_def balances_ok_def)

end
