(* ===== verification/Integrity.thy ===== *)
theory Integrity
  imports Invariant
begin

section \<open>The integrity checker (\<open>observability/integrity.rs\<close>)\<close>

text \<open>
  The background task that recomputes the books: the global sum of debits and credits, the
  balances of every account from its entries, and the cache against the database. Each
  check is a program over the server state: the SQL aggregate runs on a pool connection,
  the comparison loop is written out, and the verdict is a gauge. The check of the cache
  reads the cache in steps of their own, after the query.
\<close>

subsection \<open>Aggregates\<close>

text \<open>\<open>SUM\<close> over \<open>BIGINT\<close> is exact; the cast back to \<open>BIGINT\<close> fails out of range.\<close>

definition bigint_cast :: "int \<Rightarrow> (i64, pg_error) result" where
  "bigint_cast x = (if in_i64 x then Ok (of_int x) else Err Numeric_value_out_of_range)"

definition sum_case :: "(entry_row \<Rightarrow> bool) \<Rightarrow> entry_row list \<Rightarrow> int" where
  "sum_case P rows = sum_list (map (\<lambda>r. if P r then sint (er_amount r) else 0) rows)"

definition returning :: "('j tables \<Rightarrow> ('a, pg_error) result) \<Rightarrow> ('j, 'a) statement" where
  "returning f t q = (f t, id, q)"

subsection \<open>Check 1: debits and credits\<close>

definition global_sums :: "'j tables \<Rightarrow> (i64 \<times> i64, pg_error) result" where
  "global_sums t =
     (let rows = filter (\<lambda>r. er_status r \<noteq> 3) (tbl_entries t) in
      and_then (bigint_cast (sum_case (\<lambda>r. er_entry_type r = 1) rows)) (\<lambda>total_debits.
      and_then (bigint_cast (sum_case (\<lambda>r. er_entry_type r = 2) rows)) (\<lambda>total_credits.
      Ok (total_debits, total_credits))))"

definition check_global_balance :: "(row_lock list, 'j server, unit) prog" where
  "check_global_balance =
     pbind (query_pool (returning global_sums)) (\<lambda>result.
     atomic [] (\<lambda>s. ((),
       case result of
         Ok (total_debits, total_credits) \<Rightarrow>
           set_gauge ''fides_integrity_global_balanced'' (if total_debits = total_credits then 1 else 0) s
       | Err e \<Rightarrow> s)))"

subsection \<open>Check 2: the materialised balances\<close>

definition is_debit_normal :: "i16 \<Rightarrow> bool" where
  "is_debit_normal account_type \<longleftrightarrow> account_type = 1 \<or> account_type = 5"

text \<open>One result row per account: its columns and the four sums over its entries.\<close>

record balance_report =
  br_id :: i64
  br_account_type :: i16
  br_posted :: i64
  br_pending :: i64
  br_posted_debits :: i64
  br_posted_credits :: i64
  br_pending_debits :: i64
  br_pending_credits :: i64

definition account_report :: "entry_row list \<Rightarrow> account_row \<Rightarrow> (balance_report, pg_error) result" where
  "account_report es a =
     (let rows = filter (\<lambda>e. er_account_id e = ar_id a \<and> er_status e \<noteq> 3) es;
          total = (\<lambda>st ty. bigint_cast (sum_case (\<lambda>e. er_status e = st \<and> er_entry_type e = ty) rows)) in
      and_then (total 2 1) (\<lambda>posted_debits.
      and_then (total 2 2) (\<lambda>posted_credits.
      and_then (total 1 1) (\<lambda>pending_debits.
      and_then (total 1 2) (\<lambda>pending_credits.
      Ok \<lparr> br_id = ar_id a, br_account_type = ar_account_type a,
           br_posted = ar_posted_balance a, br_pending = ar_pending_balance a,
           br_posted_debits = posted_debits, br_posted_credits = posted_credits,
           br_pending_debits = pending_debits, br_pending_credits = pending_credits \<rparr>)))))"

definition account_reports :: "'j tables \<Rightarrow> (balance_report list, pg_error) result" where
  "account_reports t = map_result (account_report (tbl_entries t)) (tbl_accounts t)"

definition report_mismatch :: "balance_report \<Rightarrow> bool" where
  "report_mismatch r \<longleftrightarrow>
     (let debit_normal = is_debit_normal (br_account_type r);
          expected_posted = (if debit_normal then br_posted_debits r - br_posted_credits r
                             else br_posted_credits r - br_posted_debits r);
          expected_pending = (if debit_normal then br_pending_debits r - br_pending_credits r
                              else br_pending_credits r - br_pending_debits r)
      in br_posted r \<noteq> expected_posted \<or> br_pending r \<noteq> expected_pending)"

fun count_mismatches :: "balance_report list \<Rightarrow> nat \<Rightarrow> nat" where
  "count_mismatches [] mismatches = mismatches"
| "count_mismatches (r # rows) mismatches =
     count_mismatches rows (if report_mismatch r then mismatches + 1 else mismatches)"

definition check_account_balances :: "(row_lock list, 'j server, unit) prog" where
  "check_account_balances =
     pbind (query_pool (returning account_reports)) (\<lambda>result.
     atomic [] (\<lambda>s. ((),
       case result of
         Ok rows \<Rightarrow> set_gauge ''fides_integrity_account_mismatches'' (int (count_mismatches rows 0)) s
       | Err e \<Rightarrow> s)))"

subsection \<open>Check 3: the cache\<close>

text \<open>The database rows against the lookup table built from the cache.\<close>

fun db_mismatches :: "(i64 \<Rightarrow> (i64 \<times> i64) option) \<Rightarrow> (i64 \<times> i64 \<times> i64) list \<Rightarrow> nat \<Rightarrow> nat" where
  "db_mismatches lookup [] mismatches = mismatches"
| "db_mismatches lookup ((i, db_posted, db_pending) # rows) mismatches =
     db_mismatches lookup rows
       (case lookup i of
          Some (cache_posted, cache_pending) \<Rightarrow>
            if db_posted \<noteq> cache_posted \<or> db_pending \<noteq> cache_pending then mismatches + 1 else mismatches
        | None \<Rightarrow> mismatches + 1)"

text \<open>Cached accounts the database does not have.\<close>

fun extra_cached :: "i64 list \<Rightarrow> (AccountId \<times> i64 \<times> i64) list \<Rightarrow> nat \<Rightarrow> nat" where
  "extra_cached db_ids [] mismatches = mismatches"
| "extra_cached db_ids ((account_id, posted, pending) # entries) mismatches =
     extra_cached db_ids entries
       (if account_id_value account_id \<notin> set db_ids then mismatches + 1 else mismatches)"

definition cache_lookup :: "(AccountId \<times> i64 \<times> i64) list \<Rightarrow> i64 \<Rightarrow> (i64 \<times> i64) option" where
  "cache_lookup entries =
     foldl (\<lambda>m (account_id, posted, pending). m(account_id_value account_id \<mapsto> (posted, pending))) (\<lambda>_. None) entries"

definition snapshot_cache :: "(row_lock list, 'j server, (AccountId \<times> i64 \<times> i64) list) prog" where
  "snapshot_cache = atomic [] (\<lambda>s. (cache_iter (srv_cache s), s))"

definition check_cache_consistency :: "(row_lock list, 'j server, unit) prog" where
  "check_cache_consistency =
     pbind (query_pool (select (\<lambda>t. map (\<lambda>r. (ar_id r, ar_posted_balance r, ar_pending_balance r)) (tbl_accounts t))))
       (\<lambda>result. case result of
          Ok db_rows \<Rightarrow>
            pbind snapshot_cache (\<lambda>cache_entries.
            pbind snapshot_cache (\<lambda>cache_again.
              let mismatches = db_mismatches (cache_lookup cache_entries) db_rows 0;
                  total = extra_cached (map fst db_rows) cache_again mismatches
              in atomic [] (\<lambda>s. ((), set_gauge ''fides_integrity_cache_mismatches'' (int total) s))))
        | Err e \<Rightarrow> Done ())"

subsection \<open>All checks, and the loop\<close>

definition run_all_checks :: "int \<Rightarrow> (row_lock list, 'j server, unit) prog" where
  "run_all_checks now =
     pbind check_global_balance (\<lambda>_.
     pbind check_account_balances (\<lambda>_.
     pbind check_cache_consistency (\<lambda>_.
     atomic [] (\<lambda>s. ((), set_gauge ''fides_integrity_last_check_timestamp'' now s)))))"

text \<open>
  What wakes the loop, after the first tick of the interval, which fires at once and is
  skipped: a tick, with the time of the clock, or the shutdown.
\<close>

datatype wakeup = Tick int | Shutdown

fun checker_run :: "wakeup list \<Rightarrow> (row_lock list, 'j server, unit) prog" where
  "checker_run [] = Done ()"
| "checker_run (Tick now # events) = pbind (run_all_checks now) (\<lambda>_. checker_run events)"
| "checker_run (Shutdown # events) = Done ()"

end
