(* ===== verification/IntegritySpec.thy ===== *)
theory IntegritySpec
  imports Books Integrity
begin

section \<open>The integrity checks are exact\<close>

text \<open>
  Each check reports a violation if and only if there is one, for any contents of the tables
  with valid entry rows; and on tables that satisfy the ledger invariant, with a coherent
  cache, no check ever reports a violation, whatever calls of the database fail.
\<close>

subsection \<open>The sums\<close>

definition rows_valid :: "entry_row list \<Rightarrow> bool" where
  "rows_valid es \<longleftrightarrow> (\<forall>e \<in> set es. er_entry_type e \<in> {1, 2} \<and> 0 < sint (er_amount e))"

definition live :: "entry_row list \<Rightarrow> entry_row list" where
  "live es = filter (\<lambda>r. er_status r \<noteq> 3) es"

lemma rows_valid_filter: "rows_valid es \<Longrightarrow> rows_valid (filter P es)"
  by (simp add: rows_valid_def)

lemma sum_case_side:
  assumes "rows_valid es"
  shows "sum_case (\<lambda>r. Q r \<and> er_entry_type r = 1) es = side_sum ET_Debit (filter Q es)"
    and "sum_case (\<lambda>r. Q r \<and> er_entry_type r = 2) es = side_sum ET_Credit (filter Q es)"
  using assms by (induction es) (auto simp: sum_case_def rows_valid_def row_et_def)

lemma entries_wf_valid: "entries_wf es q \<Longrightarrow> rows_valid es"
  by (simp add: entries_wf_def entry_row_ok_def rows_valid_def)

lemma bigint_cast_nonneg: "0 \<le> x \<Longrightarrow> x < 2 ^ 63 \<Longrightarrow> bigint_cast x = Ok (of_int x)"
  by (simp add: bigint_cast_def in_i64_def)

lemma bigint_cast_Ok [result_simps]: "bigint_cast x = Ok y \<longleftrightarrow> in_i64 x \<and> y = of_int x"
  by (auto simp: bigint_cast_def)

text \<open>The books balance over all entries that are not voided.\<close>

lemma live_balanced:
  "tables_inv T q \<Longrightarrow> side_sum ET_Debit (live (tbl_entries T)) = side_sum ET_Credit (live (tbl_entries T))"
  unfolding live_def by (rule balanced_by_status)

subsection \<open>Running a check\<close>

text \<open>
  A read on a pool connection changes nothing but consumes a fault; what it returns is what
  the committed tables say.
\<close>

lemma no_faults: "srv_faults s = [] \<Longrightarrow> s\<lparr>srv_faults := []\<rparr> = s"
  by (cases s) simp

lemma query_pool_read:
  assumes "prun (query_pool (returning f)) s = (r, t)"
  obtains fs where "t = s\<lparr>srv_faults := fs\<rparr>" and "\<And>x. r = Ok x \<Longrightarrow> f (srv_db s) = Ok x"
    and "\<And>x. srv_faults s = [] \<Longrightarrow> f (srv_db s) = Ok x \<Longrightarrow> r = Ok x \<and> fs = []"
proof (cases "srv_faults s")
  case Nil
  then have "next_fault (s\<lparr>srv_tx := None\<rparr>) = (NoFault, s\<lparr>srv_tx := None\<rparr>)" by (simp add: next_fault_def)
  with assms have "t = s" and "r = map_err StorageError_from_sqlx (map_err Sqlx_Database (f (srv_db s)))"
    by (auto simp: query_pool_def execute_def perform_def returning_def)
  with Nil show ?thesis by (intro that [of "[]"]) (auto simp: result_simps)
next
  case (Cons g fs)
  then have nf: "next_fault (s\<lparr>srv_tx := None\<rparr>) = (g, s\<lparr>srv_tx := None, srv_faults := fs\<rparr>)" by (simp add: next_fault_def)
  show ?thesis
  proof (rule that [of fs])
    show "t = s\<lparr>srv_faults := fs\<rparr>"
      using assms nf by (cases g) (auto simp: query_pool_def execute_def perform_def returning_def)
    show "f (srv_db s) = Ok x" if "r = Ok x" for x
      using assms nf that by (cases g) (auto simp: query_pool_def execute_def perform_def returning_def result_simps)
  qed (use Cons in simp)
qed

lemma select_returning: "select f = returning (\<lambda>t. Ok (f t))"
  by (simp add: fun_eq_iff select_def returning_def)

text \<open>
  The state a check leaves: only the faults and the gauge of the check differ, and if the
  gauge was written, it holds the verdict.
\<close>

definition reports :: "string \<Rightarrow> int \<Rightarrow> 'j server \<Rightarrow> 'j server \<Rightarrow> bool" where
  "reports name v s t \<longleftrightarrow>
     (\<exists>fs. t = s\<lparr>srv_faults := fs\<rparr>) \<or> (\<exists>fs. t = set_gauge name v (s\<lparr>srv_faults := fs\<rparr>))"

text \<open>The checks that compare the result of one query share their shape.\<close>

definition pool_gauge ::
    "('j tables \<Rightarrow> ('a, pg_error) result) \<Rightarrow> string \<Rightarrow> ('a \<Rightarrow> int) \<Rightarrow> (row_lock list, 'j server, unit) prog" where
  "pool_gauge f name g = pbind (query_pool (returning f)) (\<lambda>result. atomic [] (\<lambda>s. ((),
       case result of Ok x \<Rightarrow> set_gauge name (g x) s | Err e \<Rightarrow> s)))"

lemma pool_gauge_verdict:
  assumes "\<And>x. f (srv_db s) = Ok x \<Longrightarrow> g x = v"
  shows "reports name v s (snd (prun (pool_gauge f name g) s))"
    and "srv_faults s = [] \<Longrightarrow> f (srv_db s) = Ok x \<Longrightarrow> snd (prun (pool_gauge f name g) s) = set_gauge name v s"
proof -
  let ?t = "snd (prun (pool_gauge f name g) s)"
  obtain r u where run: "prun (query_pool (returning f)) s = (r, u)" by force
  from query_pool_read [OF run] obtain fs where u: "u = s\<lparr>srv_faults := fs\<rparr>"
    and ok: "\<And>x. r = Ok x \<Longrightarrow> f (srv_db s) = Ok x"
    and clean: "\<And>x. srv_faults s = [] \<Longrightarrow> f (srv_db s) = Ok x \<Longrightarrow> r = Ok x \<and> fs = []" by metis
  have t: "?t = (case r of Ok x \<Rightarrow> set_gauge name (g x) u | Err e \<Rightarrow> u)"
    unfolding pool_gauge_def by (simp add: prun_pbind run)
  show "reports name v s ?t"
    using ok assms(1) by (auto simp: t u reports_def split: result.split)
  assume "srv_faults s = []" and "f (srv_db s) = Ok x"
  with clean [of x] assms(1) [of x] show "?t = set_gauge name v s" by (simp add: t u no_faults)
qed

subsection \<open>Check 1\<close>

definition global_balanced :: "'j tables \<Rightarrow> bool" where
  "global_balanced T \<longleftrightarrow> side_sum ET_Debit (live (tbl_entries T)) = side_sum ET_Credit (live (tbl_entries T))"

definition totals_fit :: "'j tables \<Rightarrow> bool" where
  "totals_fit T \<longleftrightarrow> in_i64 (side_sum ET_Debit (live (tbl_entries T))) \<and> in_i64 (side_sum ET_Credit (live (tbl_entries T)))"

lemma global_sums_Ok:
  assumes "rows_valid (tbl_entries T)"
  shows "global_sums T = Ok x \<longleftrightarrow> totals_fit T
     \<and> x = (of_int (side_sum ET_Debit (live (tbl_entries T))), of_int (side_sum ET_Credit (live (tbl_entries T))))"
proof -
  let ?rows = "live (tbl_entries T)"
  have sums: "sum_case (\<lambda>r. er_entry_type r = 1) ?rows = side_sum ET_Debit ?rows"
    "sum_case (\<lambda>r. er_entry_type r = 2) ?rows = side_sum ET_Credit ?rows"
    using sum_case_side [of ?rows "\<lambda>_. True"] rows_valid_filter [OF assms] by (simp_all add: live_def)
  show ?thesis
    unfolding global_sums_def Let_def live_def [symmetric] sums totals_fit_def by (auto simp: result_simps)
qed

lemma check_global_shape:
  "check_global_balance = pool_gauge global_sums ''fides_integrity_global_balanced''
     (\<lambda>(total_debits, total_credits). if total_debits = total_credits then 1 else 0)"
  unfolding check_global_balance_def pool_gauge_def
  by (intro arg_cong2 [where f = pbind] arg_cong [where f = "atomic []"] refl ext) (auto split: result.split)

lemma check_global_verdict:
  assumes "rows_valid (tbl_entries (srv_db s))"
  shows "reports ''fides_integrity_global_balanced'' (if global_balanced (srv_db s) then 1 else 0) s
      (snd (prun check_global_balance s))"
    and "srv_faults s = [] \<Longrightarrow> totals_fit (srv_db s) \<Longrightarrow>
      snd (prun check_global_balance s) =
        set_gauge ''fides_integrity_global_balanced'' (if global_balanced (srv_db s) then 1 else 0) s"
proof -
  let ?v = "if global_balanced (srv_db s) then 1 else 0 :: int"
  let ?g = "\<lambda>(total_debits, total_credits). if total_debits = total_credits then 1 else 0 :: int"
  have g: "?g x = ?v" if "global_sums (srv_db s) = Ok x" for x :: "i64 \<times> i64"
    using that by (auto simp: global_sums_Ok [OF assms] totals_fit_def global_balanced_def of_int_i64_inj)
  show "reports ''fides_integrity_global_balanced'' ?v s (snd (prun check_global_balance s))"
    unfolding check_global_shape by (rule pool_gauge_verdict(1) [where g = ?g, OF g])
  assume "srv_faults s = []" and fits: "totals_fit (srv_db s)"
  then show "snd (prun check_global_balance s) = set_gauge ''fides_integrity_global_balanced'' ?v s"
    unfolding check_global_shape by (intro pool_gauge_verdict(2) [where g = ?g, OF g]) (auto simp: global_sums_Ok [OF assms])
qed

subsection \<open>Check 2\<close>

lemma is_debit_normal_row: "is_debit_normal (ar_account_type a) \<longleftrightarrow> row_nb a = NB_Debit"
  by (simp add: is_debit_normal_def row_nb_def)

definition balance_exact :: "entry_row list \<Rightarrow> account_row \<Rightarrow> bool" where
  "balance_exact es a \<longleftrightarrow>
     sint (ar_posted_balance a) = account_sum 2 a es \<and> sint (ar_pending_balance a) = account_sum 1 a es"

definition inexact_accounts :: "'j tables \<Rightarrow> nat" where
  "inexact_accounts T = length (filter (\<lambda>a. \<not> balance_exact (tbl_entries T) a) (tbl_accounts T))"

lemma balances_ok_exact: "balances_ok T \<longleftrightarrow> inexact_accounts T = 0"
  by (auto simp: balances_ok_def inexact_accounts_def balance_exact_def filter_empty_conv)

text \<open>The rows of an account in one lifecycle state, and the sums the query computes of them.\<close>

definition account_rows :: "i16 \<Rightarrow> account_row \<Rightarrow> entry_row list \<Rightarrow> entry_row list" where
  "account_rows st a es = filter (\<lambda>r. er_account_id r = ar_id a \<and> er_status r = st) es"

lemma account_query_sum:
  fixes a :: account_row
  assumes "rows_valid es" and "st \<noteq> 3"
  defines "rows \<equiv> filter (\<lambda>e. er_account_id e = ar_id a \<and> er_status e \<noteq> 3) es"
  shows "sum_case (\<lambda>e. er_status e = st \<and> er_entry_type e = 1) rows = side_sum ET_Debit (account_rows st a es)"
    and "sum_case (\<lambda>e. er_status e = st \<and> er_entry_type e = 2) rows = side_sum ET_Credit (account_rows st a es)"
proof -
  have "filter (\<lambda>e. er_status e = st) rows = account_rows st a es"
    unfolding rows_def account_rows_def filter_filter by (rule filter_cong) (use assms(2) in auto)
  with sum_case_side [of rows "\<lambda>e. er_status e = st"] rows_valid_filter [OF assms(1)]
  show "sum_case (\<lambda>e. er_status e = st \<and> er_entry_type e = 1) rows = side_sum ET_Debit (account_rows st a es)"
    and "sum_case (\<lambda>e. er_status e = st \<and> er_entry_type e = 2) rows = side_sum ET_Credit (account_rows st a es)"
    by (simp_all add: rows_def)
qed

text \<open>A difference of two in-range sums of positive amounts does not wrap.\<close>

lemma side_diff_exact:
  fixes rs :: "entry_row list"
  assumes "rows_valid rs" and "in_i64 (side_sum ty rs)" and "in_i64 (side_sum ty' rs)"
  shows "b = of_int (side_sum ty rs) - of_int (side_sum ty' rs) \<longleftrightarrow> sint (b :: i64) = side_sum ty rs - side_sum ty' rs"
proof -
  have pos: "0 \<le> side_sum x rs" for x
    using assms(1) by (intro side_sum_nonneg) (simp add: rows_valid_def)
  have "in_i64 (side_sum ty rs - side_sum ty' rs)"
    using assms(2,3) pos [of ty] pos [of ty'] by (simp add: in_i64_def)
  with assms(2,3) have "sint (of_int (side_sum ty rs) - of_int (side_sum ty' rs) :: i64) = side_sum ty rs - side_sum ty' rs"
    by (simp add: sint_diff_exact sint_of_int_exact)
  then show ?thesis by (metis signed_word_eqI)
qed

lemma account_report_exact:
  assumes "rows_valid es" and "account_report es a = Ok r"
  shows "report_mismatch r \<longleftrightarrow> \<not> balance_exact es a"
proof -
  have valid: "rows_valid (account_rows st a es)" for st
    unfolding account_rows_def by (rule rows_valid_filter [OF assms(1)])
  have sum: "account_sum st a es = (if row_nb a = NB_Debit
      then side_sum ET_Debit (account_rows st a es) - side_sum ET_Credit (account_rows st a es)
      else side_sum ET_Credit (account_rows st a es) - side_sum ET_Debit (account_rows st a es))" for st
    unfolding account_sum_def account_rows_def by (cases "row_nb a") (simp_all add: sum_row_delta)
  show ?thesis
    using assms(2) valid unfolding account_report_def Let_def balance_exact_def sum report_mismatch_def
    by (auto simp: result_simps account_query_sum [OF assms(1)] is_debit_normal_row side_diff_exact)
qed

lemma count_mismatches_exact: "count_mismatches rows n = n + length (filter report_mismatch rows)"
  by (induction rows arbitrary: n) auto

lemma account_reports_exact:
  assumes "rows_valid (tbl_entries T)" and "account_reports T = Ok rows"
  shows "count_mismatches rows 0 = inexact_accounts T"
proof -
  have "list_all2 (\<lambda>a r. account_report (tbl_entries T) a = Ok r) (tbl_accounts T) rows"
    using assms(2) by (simp add: account_reports_def map_result_eq_Ok_iff)
  then have "length (filter report_mismatch rows) = length (filter (\<lambda>a. \<not> balance_exact (tbl_entries T) a) (tbl_accounts T))"
    by (induction rule: list_all2_induct) (simp_all add: account_report_exact [OF assms(1)])
  then show ?thesis by (simp add: count_mismatches_exact inexact_accounts_def)
qed

definition account_totals_fit :: "'j tables \<Rightarrow> bool" where
  "account_totals_fit T \<longleftrightarrow> (\<forall>a \<in> set (tbl_accounts T). \<forall>st \<in> {1, 2}. \<forall>ty.
     in_i64 (side_sum ty (account_rows st a (tbl_entries T))))"

lemma account_reports_Ok:
  assumes "rows_valid (tbl_entries T)" and "account_totals_fit T"
  obtains rows where "account_reports T = Ok rows"
proof -
  have "\<exists>r. account_report (tbl_entries T) a = Ok r" if "a \<in> set (tbl_accounts T)" for a
    using assms(2) that unfolding account_report_def Let_def account_totals_fit_def
    by (simp add: result_simps account_query_sum [OF assms(1)])
  then obtain g where "\<And>a. a \<in> set (tbl_accounts T) \<Longrightarrow> account_report (tbl_entries T) a = Ok (g a)" by metis
  then have "account_reports T = Ok (map g (tbl_accounts T))"
    unfolding account_reports_def by (rule map_result_total)
  then show ?thesis by (rule that)
qed

lemma check_account_shape:
  "check_account_balances = pool_gauge account_reports ''fides_integrity_account_mismatches''
     (\<lambda>rows. int (count_mismatches rows 0))"
  unfolding check_account_balances_def pool_gauge_def by (rule refl)

lemma check_account_verdict:
  assumes "rows_valid (tbl_entries (srv_db s))"
  shows "reports ''fides_integrity_account_mismatches'' (int (inexact_accounts (srv_db s))) s
      (snd (prun check_account_balances s))"
    and "srv_faults s = [] \<Longrightarrow> account_totals_fit (srv_db s) \<Longrightarrow>
      snd (prun check_account_balances s) =
        set_gauge ''fides_integrity_account_mismatches'' (int (inexact_accounts (srv_db s))) s"
proof -
  let ?g = "\<lambda>rows. int (count_mismatches rows 0)"
  have g: "?g rows = int (inexact_accounts (srv_db s))" if "account_reports (srv_db s) = Ok rows" for rows
    using account_reports_exact [OF assms that] by simp
  show "reports ''fides_integrity_account_mismatches'' (int (inexact_accounts (srv_db s))) s
      (snd (prun check_account_balances s))"
    unfolding check_account_shape by (rule pool_gauge_verdict(1) [where g = ?g, OF g])
  assume "srv_faults s = []" and "account_totals_fit (srv_db s)"
  moreover from account_reports_Ok [OF assms this(2)] obtain rows where "account_reports (srv_db s) = Ok rows" .
  ultimately show "snd (prun check_account_balances s) =
      set_gauge ''fides_integrity_account_mismatches'' (int (inexact_accounts (srv_db s))) s"
    unfolding check_account_shape by (intro pool_gauge_verdict(2) [where g = ?g, OF g])
qed

subsection \<open>Check 3\<close>

definition mirrored :: "BalanceCache \<Rightarrow> account_row \<Rightarrow> bool" where
  "mirrored c a \<longleftrightarrow> cache_map c (AccountId (ar_id a)) = Some (ar_posted_balance a, ar_pending_balance a)"

definition cache_defects :: "BalanceCache \<Rightarrow> account_row list \<Rightarrow> nat" where
  "cache_defects c as =
     length (filter (\<lambda>a. \<not> mirrored c a) as)
     + length (filter (\<lambda>(i, b). account_id_value i \<notin> ar_id ` set as) c)"

lemma cache_map_None: "cache_map c i = None \<longleftrightarrow> i \<notin> fst ` set c"
  by (simp add: cache_map_def map_of_eq_None_iff)

lemma mirrors_defects:
  assumes "cache_wf c" and "distinct (map ar_id as)"
  shows "mirrors c as \<longleftrightarrow> cache_defects c as = 0"
proof -
  have defects: "cache_defects c as = 0 \<longleftrightarrow>
      (\<forall>a \<in> set as. mirrored c a) \<and> (\<forall>i. i \<notin> ar_id ` set as \<longrightarrow> cache_map c (AccountId i) = None)"
  proof -
    have "(\<forall>p \<in> set c. account_id_value (fst p) \<in> ar_id ` set as)
        \<longleftrightarrow> (\<forall>i. i \<notin> ar_id ` set as \<longrightarrow> AccountId i \<notin> fst ` set c)"
    proof (intro iffI ballI allI impI notI)
      fix i assume "\<forall>p \<in> set c. account_id_value (fst p) \<in> ar_id ` set as" and "i \<notin> ar_id ` set as"
        and "AccountId i \<in> fst ` set c"
      then show False by (auto simp: image_iff) (metis AccountId.sel fst_conv)
    next
      fix p assume "\<forall>i. i \<notin> ar_id ` set as \<longrightarrow> AccountId i \<notin> fst ` set c" and "p \<in> set c"
      moreover have "AccountId (account_id_value (fst p)) \<in> fst ` set c" using \<open>p \<in> set c\<close> by simp
      ultimately show "account_id_value (fst p) \<in> ar_id ` set as" by blast
    qed
    then show ?thesis
      by (simp add: cache_defects_def filter_empty_conv cache_map_None case_prod_beta)
  qed
  have find: "find (\<lambda>r. ar_id r = ar_id a) as = Some a" if "a \<in> set as" for a
    using that find_row_iff [OF assms(2)] by blast
  have none: "find (\<lambda>r. ar_id r = i) as = None \<longleftrightarrow> i \<notin> ar_id ` set as" for i
    by (auto simp: find_None_iff)
  show ?thesis
  proof
    assume "mirrors c as"
    then show "cache_defects c as = 0"
      using find none unfolding defects mirrored_def mirrors_def by simp
  next
    assume "cache_defects c as = 0"
    then have m: "\<And>a. a \<in> set as \<Longrightarrow> mirrored c a" and n: "\<And>i. i \<notin> ar_id ` set as \<Longrightarrow> cache_map c (AccountId i) = None"
      unfolding defects by blast+
    have "cache_map c (AccountId i) = map_option (\<lambda>r. (ar_posted_balance r, ar_pending_balance r)) (find (\<lambda>r. ar_id r = i) as)" for i
    proof (cases "find (\<lambda>r. ar_id r = i) as")
      case None
      with n none show ?thesis by simp
    next
      case (Some a)
      with m find_SomeD [OF Some] show ?thesis by (auto simp: mirrored_def)
    qed
    with assms(1) show "mirrors c as" by (simp add: mirrors_def)
  qed
qed

lemma cache_lookup_map:
  assumes "cache_wf c"
  shows "cache_lookup (cache_iter c) i = cache_map c (AccountId i)"
proof -
  let ?f = "\<lambda>m (account_id, posted, pending). m(account_id_value account_id \<mapsto> (posted, pending))"
  have "foldl ?f m (cache_iter c) i = (case cache_map c (AccountId i) of None \<Rightarrow> m i | Some v \<Rightarrow> Some v)" for m
    using assms
  proof (induction c arbitrary: m)
    case (Cons e c)
    obtain k b where e: "e = (k, b)" by force
    have "cache_map c k = None" using Cons.prems e by (auto simp: cache_wf_def cache_map_None)
    with Cons e show ?case
      by (cases k) (auto simp: cache_iter_def cache_wf_def cache_map_def split: option.splits)
  qed (simp add: cache_iter_def cache_map_def)
  then show ?thesis by (simp add: cache_lookup_def split: option.splits)
qed

lemma db_mismatches_exact:
  "db_mismatches lookup (map (\<lambda>r. (ar_id r, ar_posted_balance r, ar_pending_balance r)) as) n =
     n + length (filter (\<lambda>a. lookup (ar_id a) \<noteq> Some (ar_posted_balance a, ar_pending_balance a)) as)"
  by (induction as arbitrary: n) (auto split: option.splits)

lemma extra_cached_exact:
  "extra_cached ids (cache_iter c) n = n + length (filter (\<lambda>(i, b). account_id_value i \<notin> set ids) c)"
  by (induction c arbitrary: n) (auto simp: cache_iter_def)

definition cache_mismatches :: "BalanceCache \<Rightarrow> account_row list \<Rightarrow> nat" where
  "cache_mismatches c as =
     (let rows = map (\<lambda>r. (ar_id r, ar_posted_balance r, ar_pending_balance r)) as in
      extra_cached (map fst rows) (cache_iter c) (db_mismatches (cache_lookup (cache_iter c)) rows 0))"

lemma cache_mismatches_exact: "cache_wf c \<Longrightarrow> cache_mismatches c as = cache_defects c as"
  unfolding cache_mismatches_def Let_def extra_cached_exact db_mismatches_exact
  by (simp add: cache_lookup_map cache_defects_def mirrored_def comp_def image_image)

lemma check_cache_verdict:
  defines "v \<equiv> (\<lambda>s :: 'j server. int (cache_mismatches (srv_cache s) (tbl_accounts (srv_db s))))"
  shows "reports ''fides_integrity_cache_mismatches'' (v s) s (snd (prun check_cache_consistency s))"
    and "srv_faults s = [] \<Longrightarrow>
      snd (prun check_cache_consistency s) = set_gauge ''fides_integrity_cache_mismatches'' (v s) s"
proof -
  let ?rows = "\<lambda>t. map (\<lambda>r. (ar_id r, ar_posted_balance r, ar_pending_balance r)) (tbl_accounts t)"
  obtain r u where run: "prun (query_pool (returning (\<lambda>t. Ok (?rows t)))) s = (r, u)" by force
  obtain fs where u: "u = s\<lparr>srv_faults := fs\<rparr>"
    and ok: "\<And>x. r = Ok x \<Longrightarrow> x = ?rows (srv_db s)"
    and clean: "srv_faults s = [] \<Longrightarrow> r = Ok (?rows (srv_db s)) \<and> fs = []"
  proof (rule query_pool_read [OF run], goal_cases)
    case (1 fs)
    show ?case by (rule 1(1) [OF 1(2)]) (use 1(3,4) in simp)+
  qed
  have t: "snd (prun check_cache_consistency s) =
      (case r of Ok x \<Rightarrow> set_gauge ''fides_integrity_cache_mismatches'' (v s) u | Err e \<Rightarrow> u)"
    unfolding check_cache_consistency_def select_returning
    by (auto simp: prun_pbind run u v_def cache_mismatches_def snapshot_cache_def Let_def dest!: ok split: result.split)
  show "reports ''fides_integrity_cache_mismatches'' (v s) s (snd (prun check_cache_consistency s))"
    unfolding t by (auto simp: reports_def u split: result.split)
  assume "srv_faults s = []"
  with clean show "snd (prun check_cache_consistency s) = set_gauge ''fides_integrity_cache_mismatches'' (v s) s"
    unfolding t by (simp add: u no_faults)
qed

subsection \<open>All checks\<close>

text \<open>The checks change nothing but gauges.\<close>

definition audited :: "'j server \<Rightarrow> 'j server \<Rightarrow> bool" where
  "audited s t \<longleftrightarrow> srv_db t = srv_db s \<and> srv_seqs t = srv_seqs s \<and> srv_cache t = srv_cache s \<and> srv_tx t = srv_tx s"

lemma audited_trans: "audited s t \<Longrightarrow> audited t u \<Longrightarrow> audited s u"
  by (simp add: audited_def)

lemma audited_set_gauge: "audited s (set_gauge name v s)"
  by (simp add: audited_def set_gauge_def)

lemma reports_audited: "reports name v s t \<Longrightarrow> audited s t"
  by (auto simp: reports_def audited_def set_gauge_def)

lemma pool_gauge_audited: "audited s (snd (prun (pool_gauge f name g) s))"
  by (rule reports_audited, rule pool_gauge_verdict(1) [where v = "case f (srv_db s) of Ok x \<Rightarrow> g x | Err e \<Rightarrow> 0"]) simp

lemma check_global_audited: "audited s (snd (prun check_global_balance s))"
  unfolding check_global_shape by (rule pool_gauge_audited)

lemma check_account_audited: "audited s (snd (prun check_account_balances s))"
  unfolding check_account_shape by (rule pool_gauge_audited)

lemma run_all_checks_run:
  "snd (prun (run_all_checks now) s) =
     set_gauge ''fides_integrity_last_check_timestamp'' now
       (snd (prun check_cache_consistency (snd (prun check_account_balances (snd (prun check_global_balance s))))))"
  by (simp add: run_all_checks_def prun_pbind case_prod_beta)

lemma run_all_checks_audited: "audited s (snd (prun (run_all_checks now) s))"
  unfolding run_all_checks_run
  by (rule audited_trans [OF audited_trans [OF audited_trans [OF check_global_audited check_account_audited]
          reports_audited [OF check_cache_verdict(1)]] audited_set_gauge])

text \<open>The gauges after all checks.\<close>

abbreviation gauge :: "'j server \<Rightarrow> string \<Rightarrow> int option" where
  "gauge s name \<equiv> gauges (srv_metrics s) name"

lemma gauge_set_gauge [simp]: "gauge (set_gauge name v s) n = (if n = name then Some v else gauge s n)"
  by (simp add: set_gauge_def)

lemma set_gauge_fields [simp]:
  "srv_db (set_gauge name v s) = srv_db s" "srv_cache (set_gauge name v s) = srv_cache s"
  "srv_faults (set_gauge name v s) = srv_faults s"
  by (simp_all add: set_gauge_def)

lemma reports_gauge:
  assumes "reports name v s t"
  shows "gauge t name \<in> {gauge s name, Some v}" and "n \<noteq> name \<Longrightarrow> gauge t n = gauge s n"
  using assms by (auto simp: reports_def)

lemma run_all_checks_gauges:
  assumes "rows_valid (tbl_entries (srv_db s))"
  defines "t \<equiv> \<lambda>now. snd (prun (run_all_checks now) s)"
  shows "gauge (t now) ''fides_integrity_global_balanced'' \<in>
       {gauge s ''fides_integrity_global_balanced'', Some (if global_balanced (srv_db s) then 1 else 0)}"
    and "gauge (t now) ''fides_integrity_account_mismatches'' \<in>
       {gauge s ''fides_integrity_account_mismatches'', Some (int (inexact_accounts (srv_db s)))}"
    and "gauge (t now) ''fides_integrity_cache_mismatches'' \<in>
       {gauge s ''fides_integrity_cache_mismatches'',
        Some (int (cache_mismatches (srv_cache s) (tbl_accounts (srv_db s))))}"
proof -
  define s1 where "s1 = snd (prun check_global_balance s)"
  define s2 where "s2 = snd (prun check_account_balances s1)"
  define s3 where "s3 = snd (prun check_cache_consistency s2)"
  have t: "t now = set_gauge ''fides_integrity_last_check_timestamp'' now s3"
    unfolding t_def run_all_checks_run s1_def s2_def s3_def by (rule refl)
  have a1: "audited s s1" and a2: "audited s s2"
    unfolding s1_def s2_def by (rule check_global_audited, rule audited_trans [OF check_global_audited check_account_audited])
  note r1 = check_global_verdict(1) [OF assms(1), folded s1_def]
  have "rows_valid (tbl_entries (srv_db s1))" using assms(1) a1 by (simp add: audited_def)
  note r2 = check_account_verdict(1) [OF this, folded s2_def]
  note r3 = check_cache_verdict(1) [of s2, folded s3_def]
  show "gauge (t now) ''fides_integrity_global_balanced'' \<in>
       {gauge s ''fides_integrity_global_balanced'', Some (if global_balanced (srv_db s) then 1 else 0)}"
    using reports_gauge(1) [OF r1] by (simp add: t reports_gauge(2) [OF r2] reports_gauge(2) [OF r3])
  show "gauge (t now) ''fides_integrity_account_mismatches'' \<in>
       {gauge s ''fides_integrity_account_mismatches'', Some (int (inexact_accounts (srv_db s)))}"
    using reports_gauge(1) [OF r2] a1 by (simp add: t reports_gauge(2) [OF r1] reports_gauge(2) [OF r3] audited_def)
  show "gauge (t now) ''fides_integrity_cache_mismatches'' \<in>
       {gauge s ''fides_integrity_cache_mismatches'',
        Some (int (cache_mismatches (srv_cache s) (tbl_accounts (srv_db s))))}"
    using reports_gauge(1) [OF r3] a2 by (simp add: t reports_gauge(2) [OF r1] reports_gauge(2) [OF r2] audited_def)
qed

lemma run_all_checks_clean:
  assumes "rows_valid (tbl_entries (srv_db s))" and "srv_faults s = []" and "totals_fit (srv_db s)" and "account_totals_fit (srv_db s)"
  shows "snd (prun (run_all_checks now) s) =
     set_gauge ''fides_integrity_last_check_timestamp'' now
      (set_gauge ''fides_integrity_cache_mismatches'' (int (cache_mismatches (srv_cache s) (tbl_accounts (srv_db s))))
       (set_gauge ''fides_integrity_account_mismatches'' (int (inexact_accounts (srv_db s)))
        (set_gauge ''fides_integrity_global_balanced'' (if global_balanced (srv_db s) then 1 else 0) s)))"
  unfolding run_all_checks_run using assms
  by (simp add: check_global_verdict(2) check_account_verdict(2) check_cache_verdict(2))

end
