(* ===== verification/Server.thy ===== *)
theory Server
  imports Guarantees IntegritySpec
begin

section \<open>The server (\<open>server.rs\<close>)\<close>

text \<open>
  Start-up, the periodic gauges, the dispatch of requests to the handlers, and the server as
  a transition system: a step answers a request, runs the integrity checks, polls the
  gauges, or restarts the process. Requests are answered one after the other; each step
  draws its own list of faults. With \<open>L = False\<close> no reply of the database is lost. The
  reachable states are those of the steps from an empty, migrated database; the invariant,
  the history and the cache contract hold along all of them.
\<close>

subsection \<open>Start-up and polling\<close>

definition new_metrics :: Metrics where
  "new_metrics = \<lparr> counters = (\<lambda>_. 0), gauges = (\<lambda>_. None) \<rparr>"

text \<open>A new process: no open transaction, an empty cache, then the rehydration.\<close>

definition serve_start :: "(row_lock list, 'j server, (unit, StorageError) result) prog" where
  "serve_start =
     pbind (atomic [] (\<lambda>s. ((), s\<lparr>srv_tx := None, srv_metrics := new_metrics, srv_cache := BalanceCache_new\<rparr>))) (\<lambda>_.
     await load_all_balances (\<lambda>balances.
     atomic [] (\<lambda>s. (Ok (), s\<lparr>srv_cache := rehydrate (srv_cache s) balances\<rparr>))))"

definition gauge_poll :: "nat \<Rightarrow> nat \<Rightarrow> (row_lock list, 'j server, unit) prog" where
  "gauge_poll pool_size pool_idle =
     atomic [] (\<lambda>s. ((),
       set_gauge ''fides_balance_cache_accounts'' (int (cache_len (srv_cache s)))
         (set_gauge ''fides_db_pool_idle'' (int pool_idle)
           (set_gauge ''fides_db_pool_size'' (int pool_size) s))))"

subsection \<open>Dispatch\<close>

datatype request =
    CreateAccount CreateAccountRequest
  | GetAccount i64
  | GetBalance i64
  | Authorize AuthorizeRequest
  | Capture i64
  | Void i64
  | GetEntries i64

datatype response =
    AccountResponse ProtoAccount
  | BalanceResponse ProtoBalance
  | AuthorizationResponse AuthorizeResponse
  | TransactionResponse ProtoTransaction
  | EntriesResponse "ProtoEntry list"

definition respond :: "('a \<Rightarrow> response) \<Rightarrow> ('j, 'a) rpc \<Rightarrow> ('j, response) rpc" where
  "respond f m = await m (\<lambda>x. Done (Ok (f x)))"

fun dispatch :: "'j env \<Rightarrow> request \<Rightarrow> ('j, response) rpc" where
  "dispatch env (CreateAccount req) = respond AccountResponse (rpc_create_account env req)"
| "dispatch env (GetAccount i) = respond AccountResponse (rpc_get_account env i)"
| "dispatch env (GetBalance i) = respond BalanceResponse (rpc_get_balance env i)"
| "dispatch env (Authorize req) = respond AuthorizationResponse (rpc_authorize env req)"
| "dispatch env (Capture i) = respond TransactionResponse (rpc_capture env i)"
| "dispatch env (Void i) = respond TransactionResponse (rpc_void env i)"
| "dispatch env (GetEntries i) = respond EntriesResponse (rpc_get_entries env i)"

lemma respond_outcome: "safe_outcome s (prun m s) \<Longrightarrow> safe_outcome s (prun (respond f m) s)"
  by (auto simp: respond_def prun_await safe_outcome_def split: prod.splits result.splits)

interpretation dispatching: rpc_handler "dispatch env" for env
proof
  show "safe_outcome s (prun (dispatch env req) s)" if "ledger_inv s" for req and s :: "'a server"
    using that
    by (cases req) (simp_all add: respond_outcome creating.outcome authorizing.outcome capture_rpc.outcome
        void_rpc.outcome get_account_rpc.outcome get_balance_rpc.outcome get_entries_rpc.outcome)
qed

subsection \<open>The transition system\<close>

definition migrated :: "'j server \<Rightarrow> bool" where
  "migrated s \<longleftrightarrow> srv_db s = empty_tables \<and> srv_seqs s = initial_sequences"

definition faults_ok :: "bool \<Rightarrow> fault list \<Rightarrow> bool" where
  "faults_ok L fs \<longleftrightarrow> L \<or> (\<forall>f \<in> set fs. \<forall>e. f \<noteq> LostReply e)"

inductive serves :: "bool \<Rightarrow> 'j server \<Rightarrow> 'j server \<Rightarrow> bool" for L where
  answer: "faults_ok L fs \<Longrightarrow> prun (dispatch env req) (s\<lparr>srv_faults := fs\<rparr>) = (r, t) \<Longrightarrow> serves L s t"
| check_books: "faults_ok L fs \<Longrightarrow> prun (run_all_checks now) (s\<lparr>srv_faults := fs\<rparr>) = (u, t) \<Longrightarrow> serves L s t"
| poll: "prun (gauge_poll pool_size pool_idle) s = (u, t) \<Longrightarrow> serves L s t"
| restart: "faults_ok L fs \<Longrightarrow> prun serve_start (s\<lparr>srv_faults := fs\<rparr>) = (Ok (), t) \<Longrightarrow> serves L s t"

inductive reachable :: "bool \<Rightarrow> 'j server \<Rightarrow> bool" for L where
  start: "migrated s \<Longrightarrow> prun serve_start s = (Ok (), t) \<Longrightarrow> reachable L t"
| serve: "reachable L s \<Longrightarrow> serves L s t \<Longrightarrow> reachable L t"

inductive_cases servesE: "serves L s t"

subsection \<open>Start-up restores the cache\<close>

lemma faults_ok_lossy: "faults_ok L fs \<Longrightarrow> lossy (s\<lparr>srv_faults := fs\<rparr>) \<Longrightarrow> L"
  by (auto simp: faults_ok_def lossy_def)

lemma map_of_balances:
  "map_of (map (\<lambda>r. (AccountId (ar_id r), ar_posted_balance r, ar_pending_balance r)) as) (AccountId i) =
     map_option (\<lambda>r. (ar_posted_balance r, ar_pending_balance r)) (find (\<lambda>r. ar_id r = i) as)"
  by (induction as) auto

lemma serve_start_Ok:
  assumes "prun serve_start s = (Ok (), t)" and "distinct (map ar_id (tbl_accounts (srv_db s)))"
  shows "srv_db t = srv_db s" and "srv_seqs t = srv_seqs s" and "cache_coherent t"
proof -
  let ?rows = "map (\<lambda>r. (AccountId (ar_id r), ar_posted_balance r, ar_pending_balance r)) (tbl_accounts (srv_db s))"
  have "srv_db t = srv_db s \<and> srv_seqs t = srv_seqs s \<and> srv_cache t = rehydrate BalanceCache_new ?rows"
    using assms(1)
    by (auto simp: serve_start_def prun_pbind prun_await load_all_balances_def query_pool_def execute_def
        perform_def select_def next_fault_def view_def AccountId_from_raw_def comp_def result_simps
        split: prod.splits result.splits list.splits fault.splits)
  moreover have "cache_map (rehydrate BalanceCache_new ?rows) (AccountId i) =
      map_option (\<lambda>r. (ar_posted_balance r, ar_pending_balance r)) (find (\<lambda>r. ar_id r = i) (tbl_accounts (srv_db s)))" for i
  proof -
    have "distinct (map fst ?rows)" using assms(2) by (simp add: comp_def distinct_map inj_on_def)
    then show ?thesis
      by (simp only: cache.view_load cache.view_empty map_of_balances) (simp split: option.split)
  qed
  moreover have "cache_wf (rehydrate BalanceCache_new ?rows)" by (rule cache.wf_load [OF cache.wf_empty])
  ultimately show "srv_db t = srv_db s" and "srv_seqs t = srv_seqs s" and "cache_coherent t"
    by (simp_all add: cache_coherent_def mirrors_def)
qed

subsection \<open>What holds along the steps\<close>

definition server_ok :: "bool \<Rightarrow> 'j server \<Rightarrow> bool" where
  "server_ok L s \<longleftrightarrow> ledger_inv s \<and> (\<not> L \<longrightarrow> cache_coherent s)"

lemma ledger_inv_faults [simp]: "ledger_inv (s\<lparr>srv_faults := fs\<rparr>) = ledger_inv s"
  by (simp add: ledger_inv_def)

lemma cache_coherent_faults [simp]: "cache_coherent (s\<lparr>srv_faults := fs\<rparr>) = cache_coherent s"
  by (simp add: cache_coherent_def)

lemma serves_ok:
  assumes "serves L s t" and "server_ok L s"
  shows "server_ok L t \<and> evolves (srv_db s) (srv_db t)"
  using assms(1)
proof cases
  case (answer fs env req r)
  let ?s = "s\<lparr>srv_faults := fs\<rparr>"
  have inv: "ledger_inv ?s" and t: "t = snd (prun (dispatch env req) ?s)" using assms(2) answer by (simp_all add: server_ok_def)
  have "cache_coherent t" if "\<not> L"
    unfolding t using assms(2) that faults_ok_lossy [OF answer(1)]
    by (intro dispatching.keeps_cache [OF inv]) (auto simp: server_ok_def)
  then show ?thesis
    using dispatching.keeps_inv [OF inv, of env req] dispatching.keeps_history [OF inv, of env req] by (simp add: t server_ok_def)
next
  case (check_books fs now u)
  then have "audited (s\<lparr>srv_faults := fs\<rparr>) t" using run_all_checks_audited [of "s\<lparr>srv_faults := fs\<rparr>" now] by simp
  with assms(2) show ?thesis by (simp add: audited_def server_ok_def ledger_inv_def cache_coherent_def)
next
  case (poll pool_size pool_idle u)
  then have "audited s t" by (auto simp: gauge_poll_def audited_def set_gauge_def)
  with assms(2) show ?thesis by (simp add: audited_def server_ok_def ledger_inv_def cache_coherent_def)
next
  case (restart fs)
  have "distinct (map ar_id (tbl_accounts (srv_db (s\<lparr>srv_faults := fs\<rparr>))))"
    using assms(2) by (auto simp: server_ok_def ledger_inv_def intro: distinct_account_ids)
  from serve_start_Ok [OF restart(2) this] assms(2) show ?thesis by (simp add: server_ok_def ledger_inv_def)
qed

lemma empty_inv: "tables_inv empty_tables initial_sequences"
  by (simp add: tables_inv_def empty_tables_def initial_sequences_def accounts_wf_def transactions_wf_def
      entries_wf_def references_ok_def txns_balanced_def balances_ok_def)

lemma reachable_ok: "reachable L s \<Longrightarrow> server_ok L s"
proof (induction rule: reachable.induct)
  case (start s t)
  then have "distinct (map ar_id (tbl_accounts (srv_db s)))" by (simp add: migrated_def empty_tables_def)
  from serve_start_Ok [OF start(2) this] start(1) empty_inv show ?case
    by (simp add: server_ok_def ledger_inv_def migrated_def)
qed (blast dest: serves_ok)

lemma serves_history: "(serves L)\<^sup>*\<^sup>* s t \<Longrightarrow> reachable L s \<Longrightarrow> reachable L t \<and> evolves (srv_db s) (srv_db t)"
proof (induction rule: rtranclp_induct)
  case (step t u)
  then have "reachable L t" and "evolves (srv_db s) (srv_db t)" by blast+
  moreover have "evolves (srv_db t) (srv_db u)" using serves_ok [OF step(2)] reachable_ok \<open>reachable L t\<close> by blast
  ultimately show ?case using evolves_trans step(2) by (blast intro: reachable.serve)
qed simp

end
