(* ===== verification/Journal.thy ===== *)
theory Journal
  imports Server "HOL-Library.Multiset"
begin

section \<open>The ledger as a journal\<close>

text \<open>
  The abstract specification of the service: a list of accounts and a journal of transfers,
  each with its phase and its items. Nothing is materialised: a balance is a sum over the
  journal. An operation appends a transfer, closes one, opens an account or changes nothing.
  The tables, with their balance columns, versions and states of entries, and the cache
  refine it: \<open>journal_of\<close> is the abstraction, and every answered request is a step of the
  journal with the response the journal determines.
\<close>

subsection \<open>The specification\<close>

datatype phase = Pending | Posted | Voided

record transfer =
  tf_id :: i64
  tf_key :: string
  tf_phase :: phase
  tf_items :: "item list"

record journal =
  j_accounts :: "(i64 \<times> NormalBalance) list"
  j_transfers :: "transfer list"

definition open_account :: "i64 \<Rightarrow> NormalBalance \<Rightarrow> journal \<Rightarrow> journal" where
  "open_account i nb j = j\<lparr>j_accounts := j_accounts j @ [(i, nb)]\<rparr>"

definition book :: "transfer \<Rightarrow> journal \<Rightarrow> journal" where
  "book t j = j\<lparr>j_transfers := j_transfers j @ [t]\<rparr>"

definition close_transfer :: "i64 \<Rightarrow> phase \<Rightarrow> journal \<Rightarrow> journal" where
  "close_transfer i ph j =
     j\<lparr>j_transfers := map (\<lambda>t. if tf_id t = i then t\<lparr>tf_phase := ph\<rparr> else t) (j_transfers j)\<rparr>"

definition journal_balance :: "phase \<Rightarrow> i64 \<Rightarrow> NormalBalance \<Rightarrow> journal \<Rightarrow> int" where
  "journal_balance ph i nb j =
     sum_list (map (\<lambda>t. item_sum nb (AccountId i) (tf_items t)) (filter (\<lambda>t. tf_phase t = ph) (j_transfers j)))"

text \<open>The item an entry message describes.\<close>

definition proto_item :: "ProtoEntry \<Rightarrow> item" where
  "proto_item e =
     (AccountId (pe_account_id e), if pe_entry_type e = 1 then ET_Debit else ET_Credit, Amount (pe_amount e))"

fun journal_step :: "request \<Rightarrow> response \<Rightarrow> journal \<Rightarrow> journal \<Rightarrow> bool" where
  "journal_step (CreateAccount req) (AccountResponse a) j k \<longleftrightarrow>
     pa_id a \<notin> fst ` set (j_accounts j)
     \<and> (\<exists>ty. proto_to_account_type (car_account_type req) = Ok ty \<and> k = open_account (pa_id a) (normal_balance ty) j)"
| "journal_step (GetAccount i) (AccountResponse a) j k \<longleftrightarrow>
     k = j \<and> pa_id a = i
     \<and> (\<exists>nb. (i, nb) \<in> set (j_accounts j) \<and> pa_normal_balance a = normal_balance_to_proto nb)"
| "journal_step (GetBalance i) (BalanceResponse b) j k \<longleftrightarrow>
     k = j \<and> (\<exists>nb. (i, nb) \<in> set (j_accounts j)
       \<and> sint (pb_posted b) = journal_balance Posted i nb j
       \<and> sint (pb_pending b) = journal_balance Pending i nb j
       \<and> pb_available b = i64_saturating_sub (pb_posted b) (pb_pending b))"
| "journal_step (Authorize req) (AuthorizationResponse r) j k \<longleftrightarrow>
     (case find (\<lambda>t. tf_key t = aur_idempotency_key req) (j_transfers j) of
        Some t \<Rightarrow> k = j \<and> pt_id (aus_transaction r) = tf_id t \<and> map proto_item (aus_entries r) = tf_items t
      | None \<Rightarrow> \<exists>legs t. parse_transfer_legs (aur_legs req) = Ok legs \<and> 2 \<le> length legs \<and> debits legs = credits legs
          \<and> varchar 64 (aur_idempotency_key req) = Ok (tf_key t) \<and> tf_phase t = Pending
          \<and> tf_id t = pt_id (aus_transaction r) \<and> tf_id t \<notin> tf_id ` set (j_transfers j)
          \<and> tf_items t = map leg_item legs \<and> map proto_item (aus_entries r) = tf_items t
          \<and> k = book t j)"
| "journal_step (Capture i) (TransactionResponse p) j k \<longleftrightarrow>
     pt_id p = i \<and> pt_status p = 2
     \<and> (\<exists>t \<in> set (j_transfers j). tf_id t = i
          \<and> (tf_phase t = Posted \<and> k = j \<or> tf_phase t = Pending \<and> k = close_transfer i Posted j))"
| "journal_step (Void i) (TransactionResponse p) j k \<longleftrightarrow>
     pt_id p = i \<and> pt_status p = 3
     \<and> (\<exists>t \<in> set (j_transfers j). tf_id t = i
          \<and> (tf_phase t = Voided \<and> k = j \<or> tf_phase t = Pending \<and> k = close_transfer i Voided j))"
| "journal_step (GetEntries i) (EntriesResponse es) j k \<longleftrightarrow>
     k = j \<and> i \<in> fst ` set (j_accounts j)
     \<and> mset (map proto_item es) = mset (filter (\<lambda>x. fst x = AccountId i) (concat (map tf_items (j_transfers j))))"
| "journal_step _ _ _ _ \<longleftrightarrow> False"

subsection \<open>The abstraction\<close>

definition phase_of :: "i16 \<Rightarrow> phase" where
  "phase_of st = (if st = 2 then Posted else if st = 3 then Voided else Pending)"

definition transfer_of :: "entry_row list \<Rightarrow> 'j transaction_row \<Rightarrow> transfer" where
  "transfer_of es t =
     \<lparr> tf_id = tr_id t, tf_key = tr_idempotency_key t, tf_phase = phase_of (tr_status t),
       tf_items = map row_item (of_txn (tr_id t) es) \<rparr>"

definition journal_of :: "'j tables \<Rightarrow> journal" where
  "journal_of T =
     \<lparr> j_accounts = map (\<lambda>a. (ar_id a, row_nb a)) (tbl_accounts T),
       j_transfers = map (transfer_of (tbl_entries T)) (tbl_transactions T) \<rparr>"

lemma transfer_of_fields [simp]:
  "tf_id (transfer_of es t) = tr_id t" "tf_key (transfer_of es t) = tr_idempotency_key t"
  "tf_phase (transfer_of es t) = phase_of (tr_status t)"
  "tf_items (transfer_of es t) = map row_item (of_txn (tr_id t) es)"
  by (simp_all add: transfer_of_def)

lemma row_nb_bump [simp]: "row_nb (bump_row us a) = row_nb a"
  by (simp add: row_nb_def)

subsection \<open>The effects on the tables are the steps of the journal\<close>

lemma journal_of_account_added: "journal_of (account_added T a) = open_account (ar_id a) (row_nb a) (journal_of T)"
  by (simp add: journal_of_def account_added_def open_account_def)

lemma journal_of_authorized:
  assumes "tables_inv T q0" and "new_transaction_ok T q t" and "new_entries_ok T q (tr_id t) rs"
  shows "journal_of (authorized T t rs us) =
     book \<lparr> tf_id = tr_id t, tf_key = tr_idempotency_key t, tf_phase = Pending, tf_items = map row_item rs \<rparr> (journal_of T)"
proof -
  have old: "of_txn (tr_id t) (tbl_entries T) = []"
  proof (rule of_txn_none)
    fix r assume "r \<in> set (tbl_entries T)"
    from reference_txn [OF assms(1) this] show "er_transaction_id r \<noteq> tr_id t"
      using assms(2) by (auto simp: new_transaction_ok_def image_iff)
  qed
  have rs: "of_txn (tr_id t) rs = rs"
    using assms(3) by (intro of_txn_all) (simp add: new_entries_ok_def)
  have new: "of_txn (tr_id u) rs = []" if "u \<in> set (tbl_transactions T)" for u
    using that assms(2,3) by (intro of_txn_none) (force simp: new_transaction_ok_def new_entries_ok_def)
  have "transfer_of (tbl_entries T @ rs) u = transfer_of (tbl_entries T) u" if "u \<in> set (tbl_transactions T)" for u
    using new [OF that] by (simp add: transfer_of_def)
  moreover have "tr_status t = 1" using assms(2) by (simp add: new_transaction_ok_def)
  ultimately show ?thesis
    by (simp add: journal_of_def authorized_def book_def transfer_of_def [of "tbl_entries T @ rs" t] old rs phase_of_def)
qed

lemma row_item_settle [simp]: "row_item (settle_entry tid st e) = row_item e"
  by (simp add: row_item_def settle_entry_def row_et_def)

lemma journal_of_settled:
  "journal_of (settled T i st pa us) = close_transfer i (phase_of st) (journal_of T)"
proof -
  have items: "map row_item (of_txn k (map (settle_entry i st) es)) = map row_item (of_txn k es)" for k es
    by (induction es) (auto simp: of_txn_def)
  have "transfer_of (map (settle_entry i st) es) (settle_row i st pa t) =
      (if tr_id t = i then (transfer_of es t)\<lparr>tf_phase := phase_of st\<rparr> else transfer_of es t)" for es and t :: "'a transaction_row"
    by (simp add: transfer_of_def settle_row_def items)
  then show ?thesis
    by (auto simp: journal_of_def settled_def close_transfer_def)
qed

subsection \<open>Materialised balances and the sums of the journal\<close>

lemma account_sum_journal:
  assumes inv: "tables_inv T q" and st: "(st, ph) \<in> {(1, Pending), (2, Posted)}"
  shows "account_sum st a (tbl_entries T) = journal_balance ph (ar_id a) (row_nb a) (journal_of T)"
proof -
  let ?es = "filter (\<lambda>e. er_account_id e = ar_id a \<and> er_status e = st) (tbl_entries T)"
  let ?f = "row_delta (row_nb a)" and ?ks = "map tr_id (tbl_transactions T)"
  have ks: "distinct ?ks" using inv by (simp add: tables_inv_def transactions_wf_def)
  have keys: "er_transaction_id e \<in> set ?ks" if "e \<in> set ?es" for e
    using reference_txn [OF inv, of e] that by force
  have one: "sum_list (map ?f (filter (\<lambda>e. er_transaction_id e = tr_id t) ?es))
      = (if phase_of (tr_status t) = ph then net a (of_txn (tr_id t) (tbl_entries T)) else 0)"
    if t: "t \<in> set (tbl_transactions T)" for t
  proof -
    have "tr_status t \<in> {1, 2, 3}" using inv t by (simp add: tables_inv_def transactions_wf_def transaction_row_ok_def)
    then have ph: "phase_of (tr_status t) = ph \<longleftrightarrow> tr_status t = st" using st by (auto simp: phase_of_def)
    have "filter (\<lambda>e. er_transaction_id e = tr_id t) ?es =
        (if tr_status t = st then filter (\<lambda>r. er_account_id r = ar_id a) (of_txn (tr_id t) (tbl_entries T)) else [])"
      using pending_entries [OF inv t] by (auto simp: of_txn_def filter_empty_conv intro!: filter_cong)
    then show ?thesis unfolding ph by (simp add: net_def)
  qed
  have "account_sum st a (tbl_entries T) = sum_list (map ?f ?es)" by (simp add: account_sum_def)
  also have "\<dots> = sum_list (map (\<lambda>k. sum_list (map ?f (filter (\<lambda>e. er_transaction_id e = k) ?es))) ?ks)"
    by (rule sum_list_by_key [OF ks]) (use keys in blast)
  also have "\<dots> = sum_list (map (\<lambda>t. if phase_of (tr_status t) = ph then net a (of_txn (tr_id t) (tbl_entries T)) else 0) (tbl_transactions T))"
    unfolding map_map comp_def by (rule arg_cong [where f = sum_list], rule map_cong [OF refl], rule one)
  also have "\<dots> = journal_balance ph (ar_id a) (row_nb a) (journal_of T)"
    by (simp add: journal_balance_def journal_of_def filter_map comp_def item_sum_rows sum_list_map_filter')
  finally show ?thesis .
qed

text \<open>Grouping a list by a key keeps its elements.\<close>

lemma mset_by_key:
  "distinct ks \<Longrightarrow> (\<And>x. x \<in> set xs \<Longrightarrow> key x \<in> set ks) \<Longrightarrow>
   mset (concat (map (\<lambda>k. filter (\<lambda>x. key x = k) xs) ks)) = mset xs"
proof (induction ks arbitrary: xs)
  case (Cons k ks)
  let ?ys = "filter (\<lambda>x. key x \<noteq> k) xs"
  have same: "map (\<lambda>k. filter (\<lambda>x. key x = k) ?ys) ks = map (\<lambda>k. filter (\<lambda>x. key x = k) xs) ks"
    using Cons.prems(1) by (auto intro: filter_cong)
  have "mset (concat (map (\<lambda>k. filter (\<lambda>x. key x = k) ?ys) ks)) = mset ?ys"
    using Cons.prems by (intro Cons.IH) auto
  then show ?case unfolding same by (simp add: multiset_partition [of "mset xs" "\<lambda>x. key x = k", symmetric])
next
  case Nil
  then have "x \<notin> set xs" for x by fastforce
  then have "xs = []" using list.set_intros(1) by (metis list.exhaust)
  then show ?case by simp
qed

lemma journal_items:
  assumes inv: "tables_inv T q"
  shows "mset (concat (map tf_items (j_transfers (journal_of T)))) = mset (map row_item (tbl_entries T))"
proof -
  have "mset (concat (map (\<lambda>k. filter (\<lambda>e. er_transaction_id e = k) (tbl_entries T)) (map tr_id (tbl_transactions T))))
      = mset (tbl_entries T)"
    by (rule mset_by_key) (use inv reference_txn [OF inv] in \<open>force simp: tables_inv_def transactions_wf_def\<close>)+
  then have "image_mset row_item (mset (concat (map (\<lambda>t. of_txn (tr_id t) (tbl_entries T)) (tbl_transactions T))))
      = image_mset row_item (mset (tbl_entries T))"
    by (simp add: of_txn_def comp_def)
  then show ?thesis
    unfolding mset_map [symmetric] by (simp add: journal_of_def comp_def map_concat)
qed

subsection \<open>The responses\<close>

lemma proto_item_entry:
  assumes "entry_of_row r = Ok e"
  shows "proto_item (entry_to_proto e) = row_item r"
proof -
  have "entry_type_to_proto ty = 1 \<longleftrightarrow> ty = ET_Debit" for ty by (cases ty) simp_all
  with entry_of_row_Ok(1) [OF assms, symmetric] show ?thesis
    by (cases "e_entry_type e") (simp_all add: proto_item_def entry_to_proto_def)
qed

lemma proto_items: "row_entries rs es \<Longrightarrow> map proto_item (map entry_to_proto es) = map row_item rs"
  unfolding row_entries_def by (induction rule: list_all2_induct) (simp_all add: proto_item_entry)

lemma find_transfer:
  "find (\<lambda>t. tf_key t = key) (j_transfers (journal_of T)) =
     map_option (transfer_of (tbl_entries T)) (find (\<lambda>t. tr_idempotency_key t = key) (tbl_transactions T))"
proof -
  have "find (\<lambda>t. tf_key t = key) (map (transfer_of es) ts) =
      map_option (transfer_of es) (find (\<lambda>t. tr_idempotency_key t = key) ts)" for es and ts :: "'a transaction_row list"
    by (induction ts) auto
  then show ?thesis by (simp add: journal_of_def)
qed

lemma transfer_in_journal: "t \<in> set (tbl_transactions T) \<Longrightarrow> transfer_of (tbl_entries T) t \<in> set (j_transfers (journal_of T))"
  by (simp add: journal_of_def)

lemma journal_ids: "fst ` set (j_accounts (journal_of T)) = ar_id ` set (tbl_accounts T)"
  "tf_id ` set (j_transfers (journal_of T)) = tr_id ` set (tbl_transactions T)"
  by (auto simp: journal_of_def image_image)

subsection \<open>Every answered request is a step of the journal\<close>

lemma run_Ok:
  assumes "triple (starts (srv_db s) (srv_cache s) (lossy s) (srv_seqs s)) m Q E" and "prun m s = (Ok x, t)"
  shows "Q x t"
  by (rule triple_OkD [OF assms(1) _ assms(2)]) (simp add: starts_def)

lemma create_account_refines:
  assumes inv: "ledger_inv s" and run: "prun (rpc_create_account env req) s = (Ok a, t)"
  shows "journal_step (CreateAccount req) (AccountResponse a) (journal_of (srv_db s)) (journal_of (srv_db t))"
proof -
  have "tables_inv (srv_db s) (srv_seqs s)" using inv by (simp add: ledger_inv_def)
  from run_Ok [OF triple_rpc_create_account [OF this] run] obtain ty row q
    where ty: "proto_to_account_type (car_account_type req) = Ok ty"
      and new: "creates_account (srv_db s) (srv_seqs s) ty (car_asset_code req) (ucast (car_asset_scale req)) (env_now env) row q"
      and t: "srv_db t = account_added (srv_db s) row" and a: "a = (account_proto_of_row row)\<lparr>pa_asset_code := car_asset_code req\<rparr>"
    by (auto simp: closed_def)
  have "ar_account_type row = account_type_to_i16 ty"
    using new new_account_row_fields(1) unfolding creates_account_def by blast
  then have "row_nb row = normal_balance ty" by (cases ty) (simp_all add: row_nb_def)
  with new ty show ?thesis
    by (simp add: t a account_proto_of_row_def journal_of_account_added journal_ids creates_account_def)
qed

lemma get_account_refines:
  assumes inv: "ledger_inv s" and run: "prun (rpc_get_account env i) s = (Ok a, t)"
  shows "journal_step (GetAccount i) (AccountResponse a) (journal_of (srv_db s)) (journal_of (srv_db t))"
proof -
  from run_Ok [OF triple_rpc_get_account run] obtain r x
    where t: "srv_db t = srv_db s" and r: "find (\<lambda>r. ar_id r = i) (tbl_accounts (srv_db s)) = Some r"
      and x: "account_of_row r = Ok x" and a: "a = account_to_proto x"
    by (auto simp: closed_def)
  from find_SomeD [OF r] have "r \<in> set (tbl_accounts (srv_db s))" "ar_id r = i" by simp_all
  then show ?thesis
    by (auto simp: t a account_to_proto_row [OF x] account_proto_of_row_def journal_of_def)
qed

lemma get_balance_refines:
  assumes inv: "ledger_inv s" and coh: "cache_coherent s" and run: "prun (rpc_get_balance env i) s = (Ok b, t)"
  shows "journal_step (GetBalance i) (BalanceResponse b) (journal_of (srv_db s)) (journal_of (srv_db t))"
proof -
  from run_Ok [OF triple_rpc_get_balance run] obtain c
    where t: "srv_db t = srv_db s" and c: "cache_get (srv_cache s) (AccountId i) = Some c"
      and b: "b = \<lparr> pb_posted = b_posted c, pb_pending = b_pending c, pb_available = b_available c \<rparr>"
    by (auto simp: starts_def)
  then obtain p q where pq: "cache_map (srv_cache s) (AccountId i) = Some (p, q)"
    and c': "b_posted c = p" "b_pending c = q" "b_available c = i64_saturating_sub p q"
    by (auto simp: cache_get_def cache_map_def AccountBalance_from_computed_def Let_def)
  from coh pq obtain a where "find (\<lambda>r. ar_id r = i) (tbl_accounts (srv_db s)) = Some a"
    and a: "p = ar_posted_balance a" "q = ar_pending_balance a" by (auto simp: cache_coherent_def mirrors_def)
  from find_SomeD [OF this(1)] have mem: "a \<in> set (tbl_accounts (srv_db s))" and i: "ar_id a = i" by simp_all
  have tinv: "tables_inv (srv_db s) (srv_seqs s)" using inv by (simp add: ledger_inv_def)
  then have "sint p = account_sum 2 a (tbl_entries (srv_db s))" "sint q = account_sum 1 a (tbl_entries (srv_db s))"
    using mem by (simp_all add: tables_inv_def balances_ok_def a)
  then have "sint p = journal_balance Posted i (row_nb a) (journal_of (srv_db s))"
    "sint q = journal_balance Pending i (row_nb a) (journal_of (srv_db s))"
    using account_sum_journal [OF tinv, of 2 Posted a] account_sum_journal [OF tinv, of 1 Pending a] by (simp_all add: i)
  moreover have "(i, row_nb a) \<in> set (j_accounts (journal_of (srv_db s)))" using mem i by (auto simp: journal_of_def)
  ultimately show ?thesis by (auto simp: t b c')
qed

lemma authorize_refines:
  assumes inv: "ledger_inv s" and run: "prun (rpc_authorize env req) s = (Ok r, t)"
  shows "journal_step (Authorize req) (AuthorizationResponse r) (journal_of (srv_db s)) (journal_of (srv_db t))"
proof -
  let ?key = "aur_idempotency_key req" and ?D = "srv_db s"
  have tinv: "tables_inv ?D (srv_seqs s)" using inv by (simp add: ledger_inv_def)
  note post = run_Ok [OF triple_rpc_authorize [OF tinv] run]
  show ?thesis
  proof (cases "find (\<lambda>r. tr_idempotency_key r = ?key) (tbl_transactions ?D)")
    case (Some u)
    with post obtain es where "srv_db t = ?D" "row_entries (of_txn (tr_id u) (tbl_entries ?D)) es"
      "r = \<lparr> aus_transaction = proto_of_row u, aus_entries = map entry_to_proto es \<rparr>" by (auto simp: closed_def)
    with Some show ?thesis by (simp add: find_transfer proto_items proto_of_row_def del: map_map)
  next
    case None
    with post obtain metadata legs u rs us q es
      where legs: "parse_transfer_legs (aur_legs req) = Ok legs" "validate_transaction_balance legs = Ok ()"
        and auth: "authorizes ?D (srv_cache s) (srv_seqs s) ?key metadata legs (env_now env) u rs us q"
        and t: "srv_db t = authorized ?D u rs us" and es: "row_entries rs es"
        and r: "r = \<lparr> aus_transaction = (proto_of_row u)\<lparr>pt_idempotency_key := ?key\<rparr>, aus_entries = map entry_to_proto es \<rparr>"
      by (auto simp: closed_def)
    have ok: "new_transaction_row ?key metadata (env_now env) u" "new_transaction_ok ?D q u"
      "new_entries_ok ?D q (tr_id u) rs" "leg_rows (tr_id u) (env_now env) legs rs"
      using auth by (simp_all add: authorizes_def)
    have "2 \<le> length legs \<and> debits legs = credits legs"
      using validate_transaction_balance_Ok [of legs] parse_transfer_legs_ok [OF legs(1)] legs(2) by blast
    moreover have "map row_item rs = map leg_item legs" by (rule leg_rows_items [OF ok(4)])
    moreover have "varchar 64 ?key = Ok (tr_idempotency_key u)" using ok(1) by (simp add: new_transaction_row_def)
    moreover have "tr_id u \<notin> tr_id ` set (tbl_transactions ?D)" using ok(2) by (simp add: new_transaction_ok_def)
    ultimately show ?thesis
      using None legs proto_items [OF es]
      by (simp add: find_transfer t r journal_of_authorized [OF tinv ok(2,3)] journal_ids proto_of_row_def
          exI [of _ "\<lparr> tf_id = tr_id u, tf_key = tr_idempotency_key u, tf_phase = Pending, tf_items = map leg_item legs \<rparr>"]
          del: map_map)
  qed
qed

lemma settle_refines:
  assumes inv: "tables_inv D q" and t: "find (\<lambda>r. tr_id r = i) (tbl_transactions D) = Some t"
    and st: "st \<in> {2, 3}" and out: "if tr_status t = st then T = D \<and> p = proto_of_row t
        else tr_status t = 1 \<and> T = settled D i st pa us \<and> p = proto_of_row (settle_row i st pa t)"
  shows "pt_id p = i \<and> pt_status p = scast st
     \<and> (\<exists>t \<in> set (j_transfers (journal_of D)). tf_id t = i
          \<and> (tf_phase t = phase_of st \<and> journal_of T = journal_of D
             \<or> tf_phase t = Pending \<and> journal_of T = close_transfer i (phase_of st) (journal_of D)))"
proof -
  from find_SomeD [OF t] have mem: "t \<in> set (tbl_transactions D)" and i: "tr_id t = i" by simp_all
  show ?thesis
  proof (cases "tr_status t = st")
    case True
    with out i show ?thesis
      by (auto simp: proto_of_row_def intro!: bexI [OF _ transfer_in_journal [OF mem]])
  next
    case False
    with out i show ?thesis
      by (auto simp: proto_of_row_def settle_row_def journal_of_settled phase_of_def
          intro!: bexI [OF _ transfer_in_journal [OF mem]])
  qed
qed

lemma capture_refines:
  assumes inv: "ledger_inv s" and run: "prun (rpc_capture env i) s = (Ok p, t)"
  shows "journal_step (Capture i) (TransactionResponse p) (journal_of (srv_db s)) (journal_of (srv_db t))"
proof -
  have tinv: "tables_inv (srv_db s) (srv_seqs s)" using inv by (simp add: ledger_inv_def)
  from run_Ok [OF triple_rpc_capture [OF tinv] run] obtain u us
    where u: "find (\<lambda>r. tr_id r = i) (tbl_transactions (srv_db s)) = Some u"
      and out: "if tr_status u = 2 then srv_db t = srv_db s \<and> p = proto_of_row u
        else tr_status u = 1 \<and> srv_db t = settled (srv_db s) i 2 (Some (env_now env)) us
          \<and> p = proto_of_row (settle_row i 2 (Some (env_now env)) u)"
    by (auto simp: closed_def split: if_splits)
  from settle_refines [OF tinv u _ out] show ?thesis by (simp add: phase_of_def)
qed

lemma void_refines:
  assumes inv: "ledger_inv s" and run: "prun (rpc_void env i) s = (Ok p, t)"
  shows "journal_step (Void i) (TransactionResponse p) (journal_of (srv_db s)) (journal_of (srv_db t))"
proof -
  have tinv: "tables_inv (srv_db s) (srv_seqs s)" using inv by (simp add: ledger_inv_def)
  from run_Ok [OF triple_rpc_void [OF tinv] run] obtain u us
    where u: "find (\<lambda>r. tr_id r = i) (tbl_transactions (srv_db s)) = Some u"
      and out: "if tr_status u = 3 then srv_db t = srv_db s \<and> p = proto_of_row u
        else tr_status u = 1 \<and> srv_db t = settled (srv_db s) i 3 None us
          \<and> p = proto_of_row (settle_row i 3 None u)"
    by (auto simp: closed_def split: if_splits)
  from settle_refines [OF tinv u _ out] show ?thesis by (simp add: phase_of_def)
qed

lemma get_entries_refines:
  assumes inv: "ledger_inv s" and run: "prun (rpc_get_entries env i) s = (Ok es, t)"
  shows "journal_step (GetEntries i) (EntriesResponse es) (journal_of (srv_db s)) (journal_of (srv_db t))"
proof -
  have tinv: "tables_inv (srv_db s) (srv_seqs s)" using inv by (simp add: ledger_inv_def)
  from run_Ok [OF triple_rpc_get_entries [OF tinv] run] obtain xs
    where t: "srv_db t = srv_db s" and i: "i \<in> ar_id ` set (tbl_accounts (srv_db s))" and es: "es = map entry_to_proto xs"
      and xs: "row_entries (filter (\<lambda>r. er_account_id r = i) (tbl_entries (srv_db s))) xs"
    by (auto simp: closed_def)
  have "filter (\<lambda>x. fst x = AccountId i) (map row_item rows) = map row_item (filter (\<lambda>r. er_account_id r = i) rows)" for rows
    by (induction rows) (simp_all add: row_item_def)
  then have "mset (map proto_item es) = filter_mset (\<lambda>x. fst x = AccountId i) (mset (map row_item (tbl_entries (srv_db s))))"
    unfolding es proto_items [OF xs] by (metis mset_filter)
  with i show ?thesis
    unfolding journal_items [OF tinv, symmetric] by (simp add: t journal_ids del: mset_map mset_concat)
qed

lemma dispatch_refines:
  assumes "ledger_inv s" and "cache_coherent s" and "prun (dispatch env req) s = (Ok resp, t)"
  shows "journal_step req resp (journal_of (srv_db s)) (journal_of (srv_db t))"
proof -
  have respond: "\<exists>x. prun m s = (Ok x, t) \<and> resp = f x" if "prun (respond f m) s = (Ok resp, t)"
    for f and m :: "('a, 'x) rpc"
    using that by (auto simp: respond_def prun_await split: prod.splits result.splits)
  show ?thesis
    using assms by (cases req)
      (auto dest!: respond dest: create_account_refines get_account_refines get_balance_refines
        authorize_refines capture_refines void_refines get_entries_refines simp del: journal_step.simps)
qed

end
