(* ===== verification/Progress.thy ===== *)
theory Progress
  imports Service
begin

section \<open>Runs without faults\<close>

text \<open>
  What the handlers return when every call of the database is answered. \<open>ends P m F\<close> says
  that the run of \<open>m\<close> from a state with \<open>P\<close> and no fault to come returns a result with
  \<open>F\<close>; the rules compose it with the triples, which say what the intermediate states are.
  Requests the ledger can carry out succeed, and the others get the error the source
  specifies.
\<close>

definition ends ::
    "('j server \<Rightarrow> bool) \<Rightarrow> (row_lock list, 'j server, ('a, 'e) result) prog \<Rightarrow> (('a, 'e) result \<Rightarrow> bool) \<Rightarrow> bool" where
  "ends P m F \<longleftrightarrow>
     (\<forall>s. P s \<and> srv_faults s = [] \<longrightarrow> F (fst (prun m s)) \<and> srv_faults (snd (prun m s)) = [])"

abbreviation succeeds ::
    "('j server \<Rightarrow> bool) \<Rightarrow> (row_lock list, 'j server, ('a, 'e) result) prog \<Rightarrow> bool" where
  "succeeds P m \<equiv> ends P m is_ok"

subsection \<open>Rules\<close>

lemma ends_await:
  assumes "triple P m R E" and "succeeds P m" and "\<And>x. ends (R x) (k x) F"
  shows "ends P (await m k) F"
  unfolding ends_def
proof (intro allI impI)
  fix s assume s: "P s \<and> srv_faults s = []"
  obtain r t where run: "prun m s = (r, t)" by force
  with assms(2) s obtain x where r: "r = Ok x" and "srv_faults t = []" by (cases r) (force simp: ends_def)+
  moreover have "R x t" using triple_OkD [OF assms(1), of s x t] s run r by blast
  ultimately show "F (fst (prun (await m k) s)) \<and> srv_faults (snd (prun (await m k) s)) = []"
    using assms(3) [of x] run by (simp add: ends_def prun_await)
qed

lemma ends_await_any: "succeeds P m \<Longrightarrow> (\<And>x. ends (\<lambda>_. True) (k x) F) \<Longrightarrow> ends P (await m k) F"
  by (rule ends_await [where R = "\<lambda>_ _. True" and E = "\<lambda>_ _. True"]) (simp_all add: triple_def split: prod.split result.split)

lemma ends_Done: "F r \<Longrightarrow> ends P (Done r) F"
  by (simp add: ends_def)

lemma ends_weaken: "ends P m F \<Longrightarrow> (\<And>s. P' s \<Longrightarrow> P s) \<Longrightarrow> (\<And>r. F r \<Longrightarrow> F' r) \<Longrightarrow> ends P' m F'"
  by (auto simp: ends_def)

lemma ends_pre_pure: "(b \<Longrightarrow> ends P m F) \<Longrightarrow> ends (\<lambda>s. b \<and> P s) m F"
  by (auto simp: ends_def)

lemma ends_ex: "(\<And>x. ends (P x) m F) \<Longrightarrow> ends (\<lambda>s. \<exists>x. P x s) m F"
  by (auto simp: ends_def)

lemma ends_attempt: "(\<And>x. r = Ok x \<Longrightarrow> ends P (k x) F) \<Longrightarrow> (\<And>e. r = Err e \<Longrightarrow> F (Err e)) \<Longrightarrow> ends P (attempt r k) F"
  by (cases r) (auto intro: ends_Done)

lemma is_ok_map_err [simp]: "is_ok (map_err f r) = is_ok r"
  by (cases r) simp_all

lemma succeeds_svc: "succeeds P m \<Longrightarrow> succeeds P (svc env m)"
  by (simp add: ends_def svc_def)

lemma succeeds_query:
  assumes "\<And>V q. P V q \<Longrightarrow> is_ok (fst (st V q))"
  shows "succeeds (tx_in D C L P) (query l st)"
  unfolding ends_def
proof (intro allI impI)
  fix s assume s: "tx_in D C L P s \<and> srv_faults s = []"
  then have "is_ok (fst (st (view s) (srv_seqs s)))" using assms by (simp add: tx_in_def)
  moreover obtain r w q where "st (view s) (srv_seqs s) = (r, w, q)" by (metis prod.exhaust)
  ultimately show "is_ok (fst (prun (query l st) s)) \<and> srv_faults (snd (prun (query l st) s)) = []"
    using s by (simp add: query_def execute_def next_fault_def perform_def)
qed

lemma succeeds_select: "succeeds (tx_in D C L P) (query l (select f))"
  by (rule succeeds_query) (simp add: select_def)

lemma succeeds_begin: "succeeds (starts D C L q0) (svc env begin_transaction)"
  by (rule succeeds_svc) (simp add: ends_def begin_transaction_def begin_tx_def next_fault_def)

lemma succeeds_commit: "succeeds P (commit env)"
  by (simp add: ends_def commit_def commit_tx_def next_fault_def)

lemma succeeds_count_event: "succeeds P (count_event name label)"
  by (simp add: ends_def count_event_def increment_def)

lemma succeeds_read_cache: "succeeds P (read_cache i)"
  by (simp add: ends_def read_cache_def)

lemma succeeds_write_cache: "succeeds P (write_cache f)"
  by (simp add: ends_def write_cache_def)

lemma succeeds_update_cache: "succeeds P (update_cache us)"
proof (induction us arbitrary: P)
  case (Cons u us)
  obtain i dp dq where u: "u = (i, dp, dq)" by (metis prod.exhaust)
  show ?case unfolding u update_cache.simps by (rule ends_await_any [OF succeeds_write_cache Cons.IH])
qed (simp add: ends_Done)

lemma ends_drop_tx: "ends P m F \<Longrightarrow> ends P (drop_tx m) F"
  by (auto simp: ends_def drop_tx_def prun_pbind split: prod.splits)

subsection \<open>Rows of the tables are accepted\<close>

lemma account_type_cases:
  assumes "between (sint (i :: i16)) 1 5"
  shows "i \<in> {1, 2, 3, 4, 5}"
proof -
  have "of_int (sint i) \<in> (of_int ` {1, 2, 3, 4, 5} :: i16 set)"
    by (rule imageI) (use assms in \<open>auto simp: between_def\<close>)
  then show ?thesis by simp
qed

lemma sint_scast_i32 [simp]: "sint (scast (v :: i32) :: i64) = sint v"
proof -
  have "in_i64 (sint v)" using sint_ge [of v] sint_lt [of v] by (simp add: in_i64_def)
  then show ?thesis unfolding scast_eq by (rule sint_of_int_exact)
qed

lemma scast_scast_i32 [simp]: "(scast (scast (v :: i32) :: i64) :: i32) = v"
  unfolding scast_eq [of "scast v :: i64"] sint_scast_i32 by simp

lemma account_of_row_complete:
  assumes "account_row_ok r"
  shows "\<exists>a. account_of_row r = Ok a"
proof -
  have "ar_account_type r \<in> {1, 2, 3, 4, 5}"
    using assms by (intro account_type_cases) (simp add: account_row_ok_def)
  then obtain ty where "i16_to_account_type (ar_account_type r) = Ok ty"
    by (auto simp: i16_to_account_type_def)
  moreover have "uint (ucast (ar_asset_scale r) :: u8) \<le> 18"
  proof -
    have "sint (ar_asset_scale r) \<in> {0..18}" using assms by (simp add: account_row_ok_def between_def)
    moreover from this have "uint (ar_asset_scale r) = sint (ar_asset_scale r)"
      unfolding uint_sint by (simp add: take_bit_int_eq_self)
    ultimately show ?thesis by (simp add: unsigned_ucast_eq take_bit_int_eq_self)
  qed
  ultimately show ?thesis
    using assms Account_new_eq_Ok by (simp add: account_of_row_def build_account_def account_row_ok_def)
qed

lemma transaction_of_row_complete:
  assumes "transaction_row_ok t"
  shows "\<exists>x. transaction_of_row t = Ok x"
proof -
  have "tr_status t \<in> {1, 2, 3}" using assms by (simp add: transaction_row_ok_def)
  then obtain st where st: "i16_to_transaction_status (tr_status t) = Ok st"
    and code: "tr_status t = transaction_status_to_i16 st"
    by (auto simp: i16_to_transaction_status_def)
  let ?p = "case tr_posted_at t of None \<Rightarrow> 0 | Some p \<Rightarrow> p"
  have "transaction_ok \<lparr> t_id = TransactionId (tr_id t), t_idempotency_key = tr_idempotency_key t, t_status = st,
      t_metadata = tr_metadata t, t_created_at = tr_created_at t, t_posted_at = ?p \<rparr>"
    using assms code by (cases st) (auto simp: transaction_row_ok_def transaction_ok_def split: option.splits)
  from Transaction_new_complete [OF this] st show ?thesis
    by (simp add: transaction_of_row_def build_transaction_def TransactionId_from_raw_def)
qed

lemma entry_of_row_complete:
  assumes "entry_row_ok e"
  shows "\<exists>x. entry_of_row e = Ok x"
proof -
  have "er_amount e \<noteq> 0" using assms by (auto simp: entry_row_ok_def)
  then show ?thesis
    using assms Entry_new_eq_Ok
    by (auto simp: entry_of_row_def build_entry_def entry_row_ok_def i16_to_entry_type_def i16_to_entry_status_def
        Amount_from_raw_def)
qed

lemma inv_rows:
  assumes "tables_inv D q"
  shows "r \<in> set (tbl_accounts D) \<Longrightarrow> account_row_ok r"
    and "t \<in> set (tbl_transactions D) \<Longrightarrow> transaction_row_ok t"
    and "e \<in> set (tbl_entries D) \<Longrightarrow> entry_row_ok e"
  using assms by (auto simp: tables_inv_def accounts_wf_def transactions_wf_def entries_wf_def)

subsection \<open>The storage methods\<close>

lemma succeeds_fetch_account:
  assumes inv: "tables_inv D q"
  shows "succeeds (reading D C L q0) (fetch_account l i)"
  unfolding fetch_account_def
proof (rule ends_await [OF triple_select_reading succeeds_select], rule ends_pre_pure, goal_cases)
  case (1 row)
  then show ?case
    using account_of_row_complete inv_rows(1) [OF inv] find_SomeD
    by (cases row) (fastforce intro: ends_Done ends_attempt)+
qed

lemma succeeds_get_transaction:
  assumes inv: "tables_inv D q"
  shows "succeeds (reading D C L q0) (get_transaction i)"
  unfolding get_transaction_def
proof (rule ends_await [OF triple_select_reading succeeds_select], rule ends_pre_pure, goal_cases)
  case (1 row)
  then show ?case
    using transaction_of_row_complete inv_rows(2) [OF inv] find_SomeD
    by (cases row) (fastforce intro: ends_Done ends_attempt)+
qed

lemma succeeds_find_transaction_by_key:
  assumes inv: "tables_inv D q"
  shows "succeeds (reading D C L q0) (find_transaction_by_key key)"
  unfolding find_transaction_by_key_def
proof (rule ends_await [OF triple_select_reading succeeds_select], rule ends_pre_pure, goal_cases)
  case (1 row)
  then show ?case
    using transaction_of_row_complete inv_rows(2) [OF inv] find_SomeD
    by (cases row) (fastforce intro: ends_Done ends_attempt)+
qed

lemma succeeds_read_entries:
  assumes inv: "tables_inv D q"
  shows "succeeds (reading D C L q0)
     (await (query l (select (\<lambda>t. sort_key (\<lambda>r. sint (er_id r)) (filter P (tbl_entries t)))))
       (\<lambda>rows. attempt (map_result entry_of_row rows) (\<lambda>es. Done (Ok es))))"
proof (rule ends_await [OF triple_select_reading succeeds_select], rule ends_pre_pure, goal_cases)
  case (1 rows)
  then have "\<exists>x. entry_of_row e = Ok x" if "e \<in> set rows" for e
    using entry_of_row_complete [OF inv_rows(3) [OF inv]] that by simp
  then obtain g where "\<And>e. e \<in> set rows \<Longrightarrow> entry_of_row e = Ok (g e)" by metis
  then have "map_result entry_of_row rows = Ok (map g rows)" by (rule map_result_total)
  then show ?case by (simp add: ends_Done)
qed

lemma succeeds_get_entries:
  assumes "tables_inv D q"
  shows "succeeds (reading D C L q0) (get_entries_for_transaction i)"
    and "succeeds (reading D C L q0) (get_entries_for_account j)"
  unfolding get_entries_for_transaction_def get_entries_for_account_def
  by (rule succeeds_read_entries [OF assms])+

lemma succeeds_update_where:
  assumes "\<And>r. r \<in> set (get W) \<Longrightarrow> P r \<Longrightarrow> is_ok (f r)"
  shows "succeeds (tx_in D C L (\<lambda>V r. V = W \<and> r = q)) (query l (update_where get upd P f))"
proof (rule succeeds_query, clarify)
  have "\<exists>y. f r = Ok y" if "r \<in> set (filter P (get W))" for r
    using assms [of r] that by (cases "f r") auto
  then obtain g where "\<And>r. r \<in> set (filter P (get W)) \<Longrightarrow> f r = Ok (g r)" by metis
  then have "map_result f (filter P (get W)) = Ok (map g (filter P (get W)))" by (rule map_result_total)
  then show "is_ok (fst (update_where get upd P f W q))" by (simp add: update_where_def)
qed

lemma succeeds_update_account_balance:
  assumes "a \<in> set (tbl_accounts W)" "ar_id a = i" "ar_version a = scast v" and "seq_le q0 q"
    and "distinct (map ar_id (tbl_accounts W))" and "bump_ok [(AccountId i, dp, dq)] a" and "account_row_ok a"
  shows "succeeds (tx_in D C L (\<lambda>V r. V = W \<and> r = q)) (update_account_balance (AccountId i) v dp dq)"
  unfolding update_account_balance_def
proof (rule ends_await [OF triple_update [OF assms(4)] succeeds_update_where], goal_cases)
  case (1 r)
  then have "r = a" using distinct_map_eq [OF assms(5), of r a] assms(1,2) by simp
  moreover have "0 \<le> sint (ar_version a + 1)"
    using assms(6,7) by (simp add: bump_ok_def assms(2) sint_add_exact_i32 account_row_ok_def)
  ultimately show ?case
    using assms(2,6,7) by (simp add: bump_ok_def bigint_add_def integer_add_def Let_def check_account_row_def
        check_def account_row_ok_def)
next
  case (2 n)
  have "filter (\<lambda>r. ar_id r = account_id_value (AccountId i) \<and> ar_version r = scast v) (tbl_accounts W) \<noteq> []"
    using assms(1-3) by (auto simp: filter_empty_conv)
  then show ?case
    by (intro ends_ex ends_pre_pure) (auto simp: map_result_length intro!: ends_Done)
qed

lemma succeeds_update_transaction_status:
  assumes t: "t \<in> set (tbl_transactions W)" "tr_id t = tid" and "seq_le q0 q"
    and rows: "\<And>t. t \<in> set (tbl_transactions W) \<Longrightarrow> transaction_row_ok t" and pa: "posted_at_ok pa"
  shows "succeeds (tx_in D C L (\<lambda>V r. V = W \<and> r = q)) (update_transaction_status (TransactionId tid) st pa)"
  unfolding update_transaction_status_def
proof (rule ends_await [OF triple_update [OF assms(3)] succeeds_update_where], goal_cases)
  case (1 r)
  have "between (sint (transaction_status_to_i16 st)) 1 4" by (cases st) (simp_all add: between_def)
  with rows [OF 1(1)] pa show ?case
    by (auto simp: Let_def check_transaction_row_def check_def transaction_row_ok_def posted_at_ok_def split: option.splits)
next
  case (2 n)
  have "filter (\<lambda>r. tr_id r = transaction_id_value (TransactionId tid)) (tbl_transactions W) \<noteq> []"
    using t by (auto simp: filter_empty_conv)
  then show ?case
    by (intro ends_ex ends_pre_pure) (auto simp: map_result_length intro!: ends_Done)
qed

lemma succeeds_update_entry_status:
  assumes rows: "\<And>e. e \<in> set (tbl_entries W) \<Longrightarrow> entry_row_ok e"
  shows "succeeds (tx_in D C L (\<lambda>V r. V = W \<and> r = q)) (update_entry_status_by_transaction (TransactionId tid) st)"
  unfolding update_entry_status_by_transaction_def
proof (rule succeeds_update_where, goal_cases)
  case (1 r)
  have "between (sint (entry_status_to_i16 st)) 1 3" by (cases st) (simp_all add: between_def)
  with rows [OF 1(1)] show ?case
    by (auto simp: Let_def check_entry_row_def check_def entry_row_ok_def between_def)
qed

subsection \<open>The loops of the handlers\<close>

lemma succeeds_lock_accounts:
  assumes inv: "tables_inv D q0"
  shows "account_id_value ` set ids \<subseteq> ar_id ` set (tbl_accounts D) \<Longrightarrow> locked D held acc \<Longrightarrow>
   succeeds (reading D C L q0) (lock_accounts env ids acc)"
proof (induction ids arbitrary: held acc)
  case Nil
  then show ?case by (simp add: ends_Done)
next
  case (Cons i ids)
  then obtain r where "find (\<lambda>r. ar_id r = account_id_value i) (tbl_accounts D) = Some r"
    by (force simp: find_None_iff image_iff)
  note r = this find_SomeD [OF this]
  show ?case unfolding lock_accounts.simps get_account_for_update_def
  proof (rule ends_await [OF triple_svc [OF triple_fetch_account] succeeds_svc [OF succeeds_fetch_account [OF inv]]],
      rule ends_pre_pure, goal_cases)
    case (1 x)
    then obtain a where a: "account_of_row r = Ok a" "x = Some a" using r by auto
    have "locked D (held @ [i]) (acc @ [a])"
      using Cons.prems(2) r a by (auto simp: locked_def intro!: list_all2_appendI)
    with Cons show ?case by (simp add: a ok_or.simps)
  qed
qed

text \<open>Every update finds the row it was computed for.\<close>

definition current :: "'j tables \<Rightarrow> Account list \<Rightarrow> updates \<Rightarrow> bool" where
  "current W accts us \<longleftrightarrow>
     (\<forall>i \<in> set (map fst us). \<exists>x. find_account accts i = Ok x
        \<and> (\<exists>a \<in> set (tbl_accounts W). ar_id a = account_id_value i \<and> ar_version a = scast (a_version x)))"

lemma bump_ok_tail:
  assumes "map_of us (AccountId i) = None" and "bump_ok ((AccountId i, dp, dq) # us) a"
  shows "bump_ok us (bump_row [(AccountId i, dp, dq)] a)"
  using assms by (cases "ar_id a = i") (auto simp: bump_ok_def bump_row_def)

lemma succeeds_apply_balance_updates:
  assumes "seq_le q0 q"
  shows "current W accts us \<Longrightarrow> distinct (map fst us) \<Longrightarrow> distinct (map ar_id (tbl_accounts W)) \<Longrightarrow>
   (\<And>a. a \<in> set (tbl_accounts W) \<Longrightarrow> bump_ok us a \<and> account_row_ok a) \<Longrightarrow>
   succeeds (tx_in D C L (\<lambda>V r. V = W \<and> r = q)) (apply_balance_updates env accts us)"
proof (induction us arbitrary: W)
  case Nil
  show ?case by (simp add: ends_Done)
next
  case (Cons u us)
  obtain i dp dq where u: "u = (AccountId i, dp, dq)" by (metis AccountId.exhaust prod.exhaust)
  let ?W = "W\<lparr>tbl_accounts := map (bump_row [u]) (tbl_accounts W)\<rparr>"
  from Cons.prems(1) u obtain x a where x: "find_account accts (AccountId i) = Ok x"
    and a: "a \<in> set (tbl_accounts W)" "ar_id a = i" "ar_version a = scast (a_version x)"
    by (auto simp: current_def)
  have fresh: "map_of us (AccountId i) = None" using Cons.prems(2) u by (auto simp: map_of_eq_None_iff)
  have head: "bump_ok [u] b" if "b \<in> set (tbl_accounts W)" for b
    using Cons.prems(4) [OF that] by (auto simp: u bump_ok_def)
  have "succeeds (tx_in D C L (\<lambda>V r. V = ?W \<and> r = q)) (apply_balance_updates env accts us)"
  proof (rule Cons.IH)
    have same: "b \<in> set (tbl_accounts W) \<Longrightarrow> ar_id b \<noteq> i \<Longrightarrow> b \<in> set (tbl_accounts ?W)" for b
      by (force simp: u bump_row_def)
    have other: "account_id_value j \<noteq> i" if "j \<in> fst ` set us" for j
      using that Cons.prems(2) u by (cases j) auto
    show "current ?W accts us" unfolding current_def
    proof
      fix j assume j: "j \<in> set (map fst us)"
      then obtain y b where "find_account accts j = Ok y" "b \<in> set (tbl_accounts W)"
        "ar_id b = account_id_value j" "ar_version b = scast (a_version y)"
        using Cons.prems(1) by (auto simp: current_def)
      with same [of b] other [of j] j show "\<exists>x. find_account accts j = Ok x
          \<and> (\<exists>a \<in> set (tbl_accounts ?W). ar_id a = account_id_value j \<and> ar_version a = scast (a_version x))"
        by (metis list.set_map)
    qed
    show "bump_ok us b \<and> account_row_ok b" if "b \<in> set (tbl_accounts ?W)" for b
    proof -
      from that obtain c where c: "c \<in> set (tbl_accounts W)" "b = bump_row [u] c" by auto
      with Cons.prems(4) [OF c(1)] head [OF c(1)] show ?thesis
        by (simp add: u bump_ok_tail [OF fresh] account_row_ok_def bump_row_version)
    qed
  qed (use Cons.prems(2,3) u in \<open>simp_all add: comp_def\<close>)
  then show ?case unfolding u apply_balance_updates.simps x attempt_Ok
    by (intro ends_await [OF triple_svc [OF triple_update_account_balance [OF assms Cons.prems(3)]]
          succeeds_svc [OF succeeds_update_account_balance [OF a assms Cons.prems(3)]]] ends_pre_pure)
      (use head [OF a(1)] Cons.prems(4) [OF a(1)] u in auto)
qed

lemma current_locked:
  assumes "locked D ids accts" and "set (map fst us) \<subseteq> set ids" and "distinct (map ar_id (tbl_accounts D))"
    and "tbl_accounts W = tbl_accounts D"
  shows "current W accts us"
  unfolding current_def
proof
  fix i assume "i \<in> set (map fst us)"
  with assms(2) have "i \<in> set ids" by blast
  from find_locked [OF assms(1) this assms(3)] obtain x r where "find_account accts i = Ok x"
    "r \<in> set (tbl_accounts D)" "ar_id r = account_id_value i" "account_of_row r = Ok x" by metis
  then show "\<exists>x. find_account accts i = Ok x
      \<and> (\<exists>a \<in> set (tbl_accounts W). ar_id a = account_id_value i \<and> ar_version a = scast (a_version x))"
    by (auto simp: assms(4) account_of_row_Ok(2) intro!: bexI [of _ r])
qed

subsection \<open>Room for the new balances\<close>

text \<open>
  The balances of an account, changed by the entries \<open>rs\<close> with the given coefficients, and
  its version, incremented, fit their columns.
\<close>

definition room :: "int \<Rightarrow> int \<Rightarrow> entry_row list \<Rightarrow> account_row \<Rightarrow> bool" where
  "room cp cq rs a \<longleftrightarrow>
     ar_id a \<notin> er_account_id ` set rs
     \<or> in_i64 (sint (ar_posted_balance a) + cp * net a rs) \<and> in_i64 (sint (ar_pending_balance a) + cq * net a rs)
       \<and> in_i32 (sint (ar_version a) + 1)"

lemma room_bump_ok:
  assumes "room cp cq rs a" and "updates_for cp cq nbf (map row_item rs) us" and "nbf (AccountId (ar_id a)) = row_nb a"
    and "in_i64 (cp * net a rs)" and "in_i64 (cq * net a rs)"
  shows "bump_ok us a"
proof -
  let ?i = "AccountId (ar_id a)"
  have mem: "?i \<in> fst ` set (map row_item rs) \<longleftrightarrow> ar_id a \<in> er_account_id ` set rs"
    by (auto simp: row_item_def image_image image_iff)
  obtain x y where x: "x = cp * net a rs" and y: "y = cq * net a rs" by simp
  have "map_of us ?i = (if ar_id a \<in> er_account_id ` set rs then Some (of_int x, of_int y) else None)"
    using assms(2,3) unfolding mem [symmetric] by (simp add: updates_for_def item_sum_rows x y)
  with assms(1,4,5) show ?thesis
    unfolding room_def x [symmetric] y [symmetric] by (auto simp: bump_ok_def sint_of_int_exact)
qed

subsection \<open>Capture and void succeed\<close>

context settlement
begin

lemma settled_range:
  assumes inv: "tables_inv D q0" and t: "t \<in> set (tbl_transactions D)" and pa: "posted_at_ok pa"
  shows "in_i64 (cp * net a (of_txn (tr_id t) (tbl_entries D)))" "in_i64 (cq * net a (of_txn (tr_id t) (tbl_entries D)))"
proof -
  let ?rs = "of_txn (tr_id t) (tbl_entries D)"
  have "in_i64 (net a ?rs) \<and> in_i64 (- net a ?rs)"
    using net_in_range [of ?rs a] inv t
    by (auto simp: tables_inv_def txns_balanced_def of_txn_def entries_wf_def entry_row_ok_def)
  then show "in_i64 (cp * net a ?rs)" "in_i64 (cq * net a ?rs)"
    using is_terminal [OF pa] by (auto simp: terminal_def split: option.splits)
qed

lemma succeeds_settle_locked:
  assumes inv: "tables_inv D q0" and t: "t \<in> set (tbl_transactions D)" "transaction_of_row t = Ok transaction"
    and pa: "posted_at_ok pa" and fits: "\<And>a. a \<in> set (tbl_accounts D) \<Longrightarrow> room cp cq (of_txn (tr_id t) (tbl_entries D)) a"
    and es: "row_entries (of_txn (tr_id t) (tbl_entries D)) es" and accts: "locked D (lock_order (map e_account_id es)) accts"
  shows "succeeds (reading D C L q0)
     (attempt (upd accts es []) (\<lambda>us.
      await (svc env (update_transaction_status (TransactionId (tr_id t)) st pa)) (\<lambda>_.
      await (svc env (update_entry_status_by_transaction (TransactionId (tr_id t)) est)) (\<lambda>_.
      await (apply_balance_updates env accts us) (\<lambda>_.
      await (commit env) (\<lambda>_.
      await (update_cache us) (\<lambda>_.
      await (count_event ''fides_transactions_total'' label) (\<lambda>_.
      attempt (map_err (\<lambda>e. service_error (ServiceError_from_TransactionError e))
        (Transaction_new (TransactionId (tr_id t)) (t_idempotency_key transaction) st (t_metadata transaction)
          (t_created_at transaction) p)) (\<lambda>updated.
      Done (Ok (transaction_to_proto updated)))))))))))"
proof -
  let ?rs = "of_txn (tr_id t) (tbl_entries D)" and ?code = "transaction_status_to_i16 st"
  have ids: "distinct (map ar_id (tbl_accounts D))" using inv by (simp add: tables_inv_def accounts_wf_def)
  from settled_proto [OF t(2) inv_rows(2) [OF inv t(1)] pa] obtain x where x: "Transaction_new (TransactionId (tr_id t))
      (t_idempotency_key transaction) st (t_metadata transaction) (t_created_at transaction) p = Ok x" by blast
  have "covers accts (nb_in D) es"
    unfolding covers_def using find_locked [OF accts _ ids] by (metis image_eqI list.set_map set_lock_order)
  from upd_updates [OF this updates_for_Nil] obtain us where us: "upd accts es [] = Ok us"
    and upds: "updates_for cp cq (nb_in D) (map row_item ?rs) us"
    by (auto simp: row_entries_items [OF es])
  have names: "set (map fst us) \<subseteq> set (lock_order (map e_account_id es))"
    using updates_for_accounts [OF upds] unfolding row_entries_items [OF es, symmetric] by (simp add: image_image)
  have bump: "bump_ok us a \<and> account_row_ok a" if "a \<in> set (tbl_accounts D)" for a
    using room_bump_ok [OF fits [OF that] upds nb_in_row [OF ids that] settled_range [OF inv t(1) pa]] inv_rows(1) [OF inv that] ..
  let ?W = "D\<lparr>tbl_transactions := map (settle_row (tr_id t) ?code pa) (tbl_transactions D),
    tbl_entries := map (settle_entry (tr_id t) (entry_status_to_i16 est)) (tbl_entries D)\<rparr>"
  have last: "succeeds (tx_in D C L (\<lambda>V r. V = ?W \<and> r = q0)) (apply_balance_updates env accts us)"
    by (rule succeeds_apply_balance_updates [OF seq_le_refl])
      (use current_locked [OF accts names ids, of ?W] upds ids bump in \<open>simp_all add: updates_for_def\<close>)
  show ?thesis unfolding us attempt_Ok
  proof (rule ends_await [OF triple_svc [OF triple_update_transaction_status [OF seq_le_refl]]
        succeeds_svc [OF succeeds_update_transaction_status [OF t(1) refl seq_le_refl inv_rows(2) [OF inv] pa]]], assumption,
      rule ends_pre_pure,
      rule ends_await [OF triple_svc [OF triple_update_entry_status [OF seq_le_refl]]
        succeeds_svc [OF succeeds_update_entry_status]], goal_cases)
    case (1 _ e)
    then show ?case using inv_rows(3) [OF inv] by simp
  next
    case 2
    show ?case unfolding x map_err.simps attempt_Ok
      by (intro ends_await_any succeeds_commit succeeds_update_cache succeeds_count_event ends_Done is_ok.simps(1) [THEN iffD2] TrueI)
        (use last in simp)
  qed
qed

lemma succeeds_settle:
  assumes inv: "tables_inv D q0" and t: "t \<in> set (tbl_transactions D)" "transaction_of_row t = Ok transaction"
    and pa: "posted_at_ok pa" and fits: "\<And>a. a \<in> set (tbl_accounts D) \<Longrightarrow> room cp cq (of_txn (tr_id t) (tbl_entries D)) a"
  shows "succeeds (reading D C L q0) (settle upd st est pa p label env (TransactionId (tr_id t)) transaction)"
  unfolding settle_def
proof (rule ends_await [OF triple_svc [OF triple_get_entries_for_transaction [OF inv]] succeeds_svc [OF succeeds_get_entries(1) [OF inv]]],
    rule ends_pre_pure, rule ends_await [OF triple_lock_accounts [where held = "[]"] succeeds_lock_accounts [OF inv, where held = "[]"]], goal_cases)
  let ?rs = "of_txn (tr_id t) (tbl_entries D)"
  case (2 es)
  then have es: "row_entries ?rs es" by (simp add: row_entries_def)
  have "account_id_value ` set (map e_account_id es) = er_account_id ` set ?rs"
    using arg_cong [OF row_entries_items [OF es], of "\<lambda>xs. (account_id_value \<circ> fst) ` set xs"]
    by (simp add: image_image row_item_def)
  then show ?case using inv by (auto simp: of_txn_def tables_inv_def references_ok_def)
next
  case (4 es accts)
  then have es: "row_entries (of_txn (tr_id t) (tbl_entries D)) es" by (simp add: row_entries_def)
  show ?case by (rule ends_pre_pure, rule succeeds_settle_locked [OF inv t pa fits es]) simp_all
qed (simp_all add: locked_def)

end

text \<open>
  \<open>capture\<close> and \<open>void\<close> begin the same way; in the state \<open>fin\<close> the request has nothing left to do.
\<close>

lemma ends_settle_request:
  assumes inv: "tables_inv D q0"
    and pending: "\<And>t transaction. t \<in> set (tbl_transactions D) \<Longrightarrow> tr_id t = i \<Longrightarrow> tr_status t = 1 \<Longrightarrow>
        transaction_of_row t = Ok transaction \<Longrightarrow> ends (reading D C L q0) (pending_body transaction) (F t)"
    and finished: "\<And>t r. tr_status t = transaction_status_to_i16 fin \<Longrightarrow> is_ok r \<Longrightarrow> F t r"
    and other: "\<And>t st. t \<in> set (tbl_transactions D) \<Longrightarrow> tr_status t = transaction_status_to_i16 st \<Longrightarrow> st \<noteq> fin \<Longrightarrow> st \<noteq> TS_Pending \<Longrightarrow>
        F t (Err (service_error (InvalidTransactionState i st label)))"
  shows "ends (reading D C L q0)
     (await (svc env (get_transaction (TransactionId i))) (\<lambda>found.
      attempt (ok_or found (service_error (TransactionNotFound i))) (\<lambda>transaction.
      if t_status transaction = fin then
        await (commit env) (\<lambda>_. await (count_event name lbl) (\<lambda>_. Done (Ok (transaction_to_proto transaction))))
      else if t_status transaction \<noteq> TS_Pending then
        Done (Err (service_error (InvalidTransactionState i (t_status transaction) label)))
      else pending_body transaction)))
     (\<lambda>r. case find (\<lambda>r. tr_id r = i) (tbl_transactions D) of
        None \<Rightarrow> r = Err (service_error (TransactionNotFound i)) | Some t \<Rightarrow> F t r)"
proof (rule ends_await [OF triple_svc [OF triple_get_transaction] succeeds_svc [OF succeeds_get_transaction [OF inv]]],
    rule ends_pre_pure, goal_cases)
  case (1 x)
  show ?case
  proof (cases "find (\<lambda>r. tr_id r = i) (tbl_transactions D)")
    case None
    with 1 show ?thesis by (simp add: ends_Done)
  next
    case (Some t)
    from find_SomeD [OF Some] have t: "t \<in> set (tbl_transactions D)" "tr_id t = i" by simp_all
    from 1 Some obtain y where y: "transaction_of_row t = Ok y" "x = Some y" by auto
    note st = transaction_of_row_Ok(3) [OF y(1), symmetric]
    have "t_status y = TS_Pending \<Longrightarrow> tr_status t = 1" using st by simp
    then show ?thesis
      using finished [of t] other [OF t(1) st] pending [OF t _ y(1)] st
      by (auto simp: y Some intro!: ends_Done ends_await_any succeeds_commit succeeds_count_event)
  qed
qed

text \<open>
  The transaction can be settled: it is not pending, or its timestamp is valid and the new
  balances fit.
\<close>

definition can_settle :: "'j tables \<Rightarrow> i64 \<Rightarrow> i64 option \<Rightarrow> int \<Rightarrow> int \<Rightarrow> bool" where
  "can_settle D i pa cp cq \<longleftrightarrow>
     (\<forall>t \<in> set (tbl_transactions D). tr_id t = i \<and> tr_status t = 1 \<longrightarrow>
        posted_at_ok pa \<and> (\<forall>a \<in> set (tbl_accounts D). room cp cq (of_txn i (tbl_entries D)) a))"

definition capture_verdict :: "'j tables \<Rightarrow> i64 \<Rightarrow> (ProtoTransaction, abort) result \<Rightarrow> bool" where
  "capture_verdict D i r \<longleftrightarrow>
     (case find (\<lambda>r. tr_id r = i) (tbl_transactions D) of
        None \<Rightarrow> r = Err (service_error (TransactionNotFound i))
      | Some t \<Rightarrow>
          if tr_status t = 3 then r = Err (service_error (InvalidTransactionState i TS_Voided ''capture''))
          else is_ok r)"

definition void_verdict :: "'j tables \<Rightarrow> i64 \<Rightarrow> (ProtoTransaction, abort) result \<Rightarrow> bool" where
  "void_verdict D i r \<longleftrightarrow>
     (case find (\<lambda>r. tr_id r = i) (tbl_transactions D) of
        None \<Rightarrow> r = Err (service_error (TransactionNotFound i))
      | Some t \<Rightarrow>
          if tr_status t = 2 then r = Err (service_error (InvalidTransactionState i TS_Posted ''void''))
          else is_ok r)"

lemma status_of_row:
  assumes "tables_inv D q0" and "t \<in> set (tbl_transactions D)" and "tr_status t = transaction_status_to_i16 st"
  shows "st \<noteq> TS_Failed"
  using inv_rows(2) [OF assms(1,2)] assms(3) by (auto simp: transaction_row_ok_def)

lemma ends_rpc_capture:
  assumes inv: "tables_inv D q0" and i: "0 < sint i" and can: "can_settle D i (Some (env_now env)) 1 (- 1)"
  shows "ends (starts D C L q0) (rpc_capture env i) (capture_verdict D i)"
proof -
  have id: "TransactionId_new i = Ok (TransactionId i)" using i by (simp add: TransactionId_new_def)
  show ?thesis
    unfolding rpc_capture_def Let_def id map_err.simps attempt_Ok capture_verdict_def TransactionId.sel
  proof (rule ends_drop_tx, rule ends_await [OF triple_begin_transaction succeeds_begin], rule ends_settle_request [OF inv], goal_cases)
    case (1 _ t transaction)
    then show ?case unfolding capture_pending_settle
      using capturing.succeeds_settle [OF inv 1(1,4), of "env_now env"] can by (auto simp: can_settle_def)
  next
    case (3 _ t st)
    then show ?case using status_of_row [OF inv 3(1,2)] by (cases st) auto
  qed simp
qed

lemma ends_rpc_void:
  assumes inv: "tables_inv D q0" and i: "0 < sint i" and can: "can_settle D i None 0 (- 1)"
  shows "ends (starts D C L q0) (rpc_void env i) (void_verdict D i)"
proof -
  have id: "TransactionId_new i = Ok (TransactionId i)" using i by (simp add: TransactionId_new_def)
  show ?thesis
    unfolding rpc_void_def id map_err.simps attempt_Ok void_verdict_def TransactionId.sel
  proof (rule ends_drop_tx, rule ends_await [OF triple_begin_transaction succeeds_begin], rule ends_settle_request [OF inv], goal_cases)
    case (1 _ t transaction)
    then show ?case unfolding void_pending_settle
      using voiding.succeeds_settle [OF inv 1(1,4)] can by (auto simp: can_settle_def)
  next
    case (3 _ t st)
    then show ?case using status_of_row [OF inv 3(1,2)] by (cases st) auto
  qed simp
qed

end
