(* ===== verification/Accept.thy ===== *)
theory Accept
  imports Progress Guarantees
begin

section \<open>The verdict of authorize\<close>

text \<open>
  Without faults, every request to authorize is answered by the first of these that
  applies: the error of an invalid request, the stored transaction of its key, the first
  account in lock order that does not exist, the first leg without available funds, or a
  new transaction.
\<close>

lemma ends_await_Err: "ends P m (\<lambda>r. r = Err e) \<Longrightarrow> F (Err e) \<Longrightarrow> ends P (await m k) F"
  by (auto simp: ends_def prun_await split: prod.splits)

subsection \<open>Missing accounts\<close>

definition exists_account :: "'j tables \<Rightarrow> AccountId \<Rightarrow> bool" where
  "exists_account D i \<longleftrightarrow> account_id_value i \<in> ar_id ` set (tbl_accounts D)"

lemma ends_lock_accounts_missing:
  assumes inv: "tables_inv D q0"
  shows "find (\<lambda>i. \<not> exists_account D i) ids = Some j \<Longrightarrow> locked D held acc \<Longrightarrow>
   ends (reading D C L q0) (lock_accounts env ids acc) (\<lambda>r. r = Err (service_error (AccountNotFound (account_id_value j))))"
proof (induction ids arbitrary: held acc)
  case (Cons i ids)
  show ?case unfolding lock_accounts.simps get_account_for_update_def
  proof (rule ends_await [OF triple_svc [OF triple_fetch_account] succeeds_svc [OF succeeds_fetch_account [OF inv]]],
      rule ends_pre_pure, goal_cases)
    case (1 x)
    show ?case
    proof (cases "find (\<lambda>r. ar_id r = account_id_value i) (tbl_accounts D)")
      case None
      then have "\<not> exists_account D i" by (auto simp: exists_account_def find_None_iff)
      with 1 None Cons.prems(1) show ?thesis by (simp add: ends_Done)
    next
      case (Some r)
      from find_SomeD [OF this] have r: "r \<in> set (tbl_accounts D)" "ar_id r = account_id_value i" by simp_all
      then have "exists_account D i" unfolding exists_account_def by (metis imageI)
      then have rest: "find (\<lambda>i. \<not> exists_account D i) ids = Some j" using Cons.prems(1) by simp
      from 1 Some obtain a where a: "account_of_row r = Ok a" "x = Some a" by auto
      have "locked D (held @ [i]) (acc @ [a])"
        using Cons.prems(2) r a by (auto simp: locked_def intro!: list_all2_appendI)
      from Cons.IH [OF rest this] show ?thesis by (simp add: a)
    qed
  qed
qed simp

subsection \<open>Missing funds\<close>

text \<open>The balance a leg is checked against, and that it is too low.\<close>

definition short_of_funds :: "'j tables \<Rightarrow> BalanceCache \<Rightarrow> TransferLeg \<Rightarrow> bool" where
  "short_of_funds D C leg \<longleftrightarrow>
     reduces_balance (nb_in D (l_account_id leg)) (l_entry_type leg)
     \<and> (\<exists>b. cache_get C (l_account_id leg) = Some b \<and> \<not> has_available b (l_amount leg))"

definition insufficient :: "BalanceCache \<Rightarrow> TransferLeg \<Rightarrow> abort" where
  "insufficient C leg =
     service_error (InsufficientFunds (account_id_value (l_account_id leg))
       (b_available (the (cache_get C (l_account_id leg)))) (amount_value (l_amount leg)))"

lemma ends_check_available:
  assumes "locked D ids accts" and "distinct (map ar_id (tbl_accounts D))"
    and cached: "\<And>i. exists_account D i \<Longrightarrow> cache_get C i \<noteq> None"
  shows "set (map l_account_id legs) \<subseteq> set ids \<Longrightarrow>
   ends (reading D C L q0) (check_available accts legs)
     (\<lambda>r. case find (short_of_funds D C) legs of None \<Rightarrow> is_ok r | Some leg \<Rightarrow> r = Err (insufficient C leg))"
proof (induction legs)
  case Nil
  show ?case by (simp add: ends_Done)
next
  case (Cons leg legs)
  then have "l_account_id leg \<in> set ids" by simp
  from find_locked [OF assms(1) this assms(2)] obtain a r
    where a: "find_account accts (l_account_id leg) = Ok a" "Account_normal_balance a = nb_in D (l_account_id leg)"
      and r: "r \<in> set (tbl_accounts D)" "ar_id r = account_id_value (l_account_id leg)" by metis
  have "exists_account D (l_account_id leg)" unfolding exists_account_def using r by (metis imageI)
  from cached [OF this] obtain b where b: "cache_get C (l_account_id leg) = Some b" by blast
  have IH: "ends (reading D C L q0) (check_available accts legs)
     (\<lambda>r. case find (short_of_funds D C) legs of None \<Rightarrow> is_ok r | Some leg \<Rightarrow> r = Err (insufficient C leg))"
    using Cons by simp
  show ?case
  proof (cases "reduces_balance (nb_in D (l_account_id leg)) (l_entry_type leg)")
    case True
    with b have short: "short_of_funds D C leg \<longleftrightarrow> \<not> has_available b (l_amount leg)" by (simp add: short_of_funds_def)
    show ?thesis unfolding check_available.simps a attempt_Ok if_P [OF True]
      by (rule ends_await [OF triple_read_cache succeeds_read_cache], rule ends_pre_pure)
        (use b IH in \<open>auto simp: short insufficient_def intro!: ends_await_any succeeds_count_event ends_Done\<close>)
  next
    case False
    then have "\<not> short_of_funds D C leg" by (simp add: short_of_funds_def)
    with IH False show ?thesis by (simp add: a)
  qed
qed

lemma funds_ok_short:
  assumes "\<And>leg. leg \<in> set legs \<Longrightarrow> cache_get C (l_account_id leg) \<noteq> None"
  shows "funds_ok D C legs \<longleftrightarrow> find (short_of_funds D C) legs = None"
proof -
  have "(reduces_balance (nb_in D (l_account_id leg)) (l_entry_type leg) \<longrightarrow>
      (\<exists>b. cache_get C (l_account_id leg) = Some b \<and> has_available b (l_amount leg))) \<longleftrightarrow> \<not> short_of_funds D C leg"
    if "leg \<in> set legs" for leg
    using assms [OF that] by (auto simp: short_of_funds_def)
  then show ?thesis unfolding funds_ok_def find_None_iff by blast
qed

subsection \<open>Inserting rows\<close>

lemma succeeds_insert:
  assumes "in_i64 (int (seq q))" and "is_ok (build W (of_nat (seq q)))"
  shows "succeeds (tx_in D C L (\<lambda>V r. V = W \<and> r = q)) (query l (insert_returning seq bump build put))"
  by (rule succeeds_query) (use assms in \<open>auto simp: insert_returning_def nextval_def split: result.split\<close>)

lemma succeeds_create_transaction:
  assumes inv: "tables_inv D q0" and key: "varchar 64 key = Ok k" "k \<notin> tr_idempotency_key ` set (tbl_transactions D)"
    and now: "0 < sint now" and seq: "in_i64 (int (transactions_id_seq q0))"
  shows "succeeds (reading D C L q0) (create_transaction key TS_Pending metadata now None)"
proof -
  have id: "sint (of_nat (transactions_id_seq q0) :: i64) = int (transactions_id_seq q0)"
    by (rule sint_of_nat_i64 [OF seq])
  have fresh: "of_nat (transactions_id_seq q0) \<notin> tr_id ` set (tbl_transactions D)"
    using inv id by (auto simp: tables_inv_def transactions_wf_def dest!: bspec)
  show ?thesis unfolding create_transaction_def
  proof (rule ends_await_any [OF succeeds_insert [where seq = transactions_id_seq, OF seq]], goal_cases)
    case 1
    then show ?case
      using key now fresh
      by (simp add: insert_transaction_check_def check_transaction_row_def check_def between_def Let_def)
  qed (simp add: ends_Done)
qed

lemma succeeds_create_entry:
  assumes rs: "new_entries_ok D q tid rs" and W: "tbl_accounts W = tbl_accounts D" "tid \<in> tr_id ` set (tbl_transactions W)"
    and leg: "leg_ok leg" "exists_account D (l_account_id leg)" and now: "0 < sint now" and seq: "in_i64 (int (entries_id_seq q))"
  shows "succeeds (tx_in D C L (\<lambda>V r. V = W\<lparr>tbl_entries := tbl_entries D @ rs\<rparr> \<and> r = q))
     (create_entry (TransactionId tid) (l_account_id leg) (l_entry_type leg) (l_amount leg) ES_Pending now)"
proof -
  have id: "sint (of_nat (entries_id_seq q) :: i64) = int (entries_id_seq q)" by (rule sint_of_nat_i64 [OF seq])
  have fresh: "of_nat (entries_id_seq q) \<notin> er_id ` set (tbl_entries D @ rs)"
    using rs id by (auto simp: new_entries_ok_def entries_wf_def dest!: bspec)
  have ty: "between (sint (entry_type_to_i16 (l_entry_type leg))) 1 2" by (cases "l_entry_type leg") (simp_all add: between_def)
  show ?thesis unfolding create_entry_def
  proof (rule ends_await_any [OF succeeds_insert [where seq = entries_id_seq, OF seq]], goal_cases)
    case 1
    then show ?case
      using W leg now fresh ty
      by (auto simp: insert_entry_check_def check_entry_row_def check_def between_def Let_def leg_ok_def exists_account_def)
  qed (simp add: ends_Done)
qed

lemma succeeds_create_entries:
  assumes "locked D ids accts" and "distinct (map ar_id (tbl_accounts D))"
    and W: "tbl_accounts W = tbl_accounts D" "tid \<in> tr_id ` set (tbl_transactions W)" and now: "0 < sint now"
    and "seq_le q0 q" and "set (map l_account_id legs) \<subseteq> set ids" and "\<And>leg. leg \<in> set legs \<Longrightarrow> leg_ok leg"
    and "in_i64 (int (entries_id_seq q + length legs))"
    and "new_entries_ok D q tid rs" and "leg_rows tid now lg rs" and "row_entries rs es"
    and "updates_for 0 1 (nb_in D) (map leg_item lg) us"
  shows "succeeds (tx_in D C L (\<lambda>V r. V = W\<lparr>tbl_entries := tbl_entries D @ rs\<rparr> \<and> r = q))
     (create_entries env (TransactionId tid) accts now legs es us)"
  using assms(6-)
proof (induction legs arbitrary: q rs lg es us)
  case Nil
  show ?case by (simp add: ends_Done)
next
  case (Cons leg legs)
  let ?q = "q\<lparr>entries_id_seq := Suc (entries_id_seq q)\<rparr>"
  have "l_account_id leg \<in> set ids" using Cons.prems by simp
  from find_locked [OF assms(1) this assms(2)] obtain a r
    where a: "find_account accts (l_account_id leg) = Ok a" "Account_normal_balance a = nb_in D (l_account_id leg)"
      and r: "r \<in> set (tbl_accounts D)" "ar_id r = account_id_value (l_account_id leg)" by metis
  have acct: "exists_account D (l_account_id leg)" unfolding exists_account_def using r by (metis imageI)
  have ok: "leg_ok leg" using Cons.prems(3) by simp
  have pos: "0 < entries_id_seq q" using Cons.prems(5) by (simp add: new_entries_ok_def entries_wf_def)
  have seq: "in_i64 (int (entries_id_seq q))" using Cons.prems(4) by (simp add: in_i64_def)
  have le: "seq_le q0 ?q" "seq_le q ?q" using Cons.prems(1) by (auto simp: seq_le_def)
  show ?case unfolding create_entries.simps a attempt_Ok
  proof (rule ends_await [OF triple_svc [OF triple_create_entry [OF Cons.prems(1) pos]]
        succeeds_svc [OF succeeds_create_entry [OF Cons.prems(5) W ok acct now seq]]],
      intro ends_ex ends_pre_pure, goal_cases)
    case (1 x i)
    have amount: "amount_value (l_amount leg) \<noteq> 0" using ok by (auto simp: leg_ok_def)
    obtain e where e: "Entry_new (EntryId i) (TransactionId tid) (l_account_id leg) (l_entry_type leg) (l_amount leg) ES_Pending now = Ok e"
      using Entry_new_eq_Ok [OF amount now] by metis
    let ?d = "item_delta (nb_in D (l_account_id leg)) (leg_item leg)"
    have us: "updates_for 0 1 (nb_in D) (map leg_item (lg @ [leg])) (add_pending us (l_account_id leg)
        (compute_balance_delta (nb_in D (l_account_id leg)) (l_entry_type leg) (l_amount leg)))"
      using updates_for_snoc [OF Cons.prems(8), of "l_account_id leg" "leg_item leg" ?d]
      by (simp add: add_pending_upsert compute_leg_delta)
    have es: "row_entries (rs @ [leg_row tid now leg i]) (es @ [e])"
      using entry_of_leg_row [OF e] Cons.prems(7) by (simp add: row_entries_def list_all2_appendI)
    have lg: "leg_rows tid now (lg @ [leg]) (rs @ [leg_row tid now leg i])"
      using Cons.prems(6) by (simp add: leg_rows_def list_all2_appendI leg_row_def)
    have rs: "new_entries_ok D ?q tid (rs @ [leg_row tid now leg i])"
      using Cons.prems(5) \<open>sint i = _\<close> \<open>entry_row_ok _\<close> \<open>_ \<in> ar_id ` _\<close> W by (intro new_entries_ok_snoc) simp_all
    from Cons.IH [OF le(1) _ _ _ rs lg es us] Cons.prems(2-4) show ?case
      unfolding \<open>x = _\<close> e map_err.simps attempt_Ok Let_def by simp
  qed
qed

subsection \<open>A new transaction\<close>

text \<open>The transaction can be stored: its key, its timestamp, the identifiers and the new balances fit.\<close>

definition can_book :: "'j tables \<Rightarrow> sequences \<Rightarrow> string \<Rightarrow> TransferLeg list \<Rightarrow> i64 \<Rightarrow> bool" where
  "can_book D q key legs now \<longleftrightarrow>
     0 < sint now
     \<and> (\<exists>k. varchar 64 key = Ok k \<and> k \<notin> tr_idempotency_key ` set (tbl_transactions D))
     \<and> in_i64 (int (transactions_id_seq q)) \<and> in_i64 (int (entries_id_seq q + length legs))
     \<and> (\<forall>a \<in> set (tbl_accounts D). AccountId (ar_id a) \<in> l_account_id ` set legs \<longrightarrow>
          in_i64 (sint (ar_pending_balance a) + item_sum (row_nb a) (AccountId (ar_id a)) (map leg_item legs))
          \<and> in_i32 (sint (ar_version a) + 1))"

lemma can_book_code [code]:
  "can_book D q key legs now \<longleftrightarrow>
     0 < sint now
     \<and> (case varchar 64 key of Ok k \<Rightarrow> k \<notin> tr_idempotency_key ` set (tbl_transactions D) | Err e \<Rightarrow> False)
     \<and> in_i64 (int (transactions_id_seq q)) \<and> in_i64 (int (entries_id_seq q + length legs))
     \<and> (\<forall>a \<in> set (tbl_accounts D). AccountId (ar_id a) \<in> l_account_id ` set legs \<longrightarrow>
          in_i64 (sint (ar_pending_balance a) + item_sum (row_nb a) (AccountId (ar_id a)) (map leg_item legs))
          \<and> in_i32 (sint (ar_version a) + 1))"
  unfolding can_book_def by (cases "varchar 64 key") simp_all

lemma can_book_bump_ok:
  assumes "can_book D q key legs now" and a: "a \<in> set (tbl_accounts D)" and ids: "distinct (map ar_id (tbl_accounts D))"
    and rs: "leg_rows tid now legs rs" "new_entries_ok D q' tid rs" and us: "updates_for 0 1 (nb_in D) (map leg_item legs) us"
    and bal: "debits legs = credits legs" "debits legs < 2 ^ 63"
  shows "bump_ok us a"
proof -
  note items = leg_rows_items [OF rs(1)]
  have net: "net a rs = item_sum (row_nb a) (AccountId (ar_id a)) (map leg_item legs)"
    unfolding items [symmetric] by (rule item_sum_rows [symmetric])
  have mem: "ar_id a \<in> er_account_id ` set rs \<longleftrightarrow> AccountId (ar_id a) \<in> l_account_id ` set legs"
  proof -
    have "(\<lambda>x. fst x) ` set (map row_item rs) = (\<lambda>x. fst x) ` set (map leg_item legs)" unfolding items ..
    then have "(\<lambda>r. AccountId (er_account_id r)) ` set rs = l_account_id ` set legs"
      by (simp add: image_image row_item_def)
    moreover have "AccountId (ar_id a) \<in> (\<lambda>r. AccountId (er_account_id r)) ` set rs \<longleftrightarrow> ar_id a \<in> er_account_id ` set rs"
      by auto
    ultimately show ?thesis by simp
  qed
  have "in_i64 (net a rs)"
    using net_in_range(1) [of rs a] leg_rows_sums [OF rs(1)] rs(2) bal
    by (auto simp: new_entries_ok_def entries_wf_def entry_row_ok_def)
  moreover have "room 0 1 rs a" using assms(1) a by (auto simp: can_book_def room_def mem net)
  ultimately show ?thesis
    using room_bump_ok [of 0 1 rs a "nb_in D" us] us nb_in_row [OF ids a] by (simp add: items)
qed

text \<open>The handler after its two checks.\<close>

lemma succeeds_book:
  assumes inv: "tables_inv D q0" and key: "key \<noteq> []" and legs: "\<And>leg. leg \<in> set legs \<Longrightarrow> leg_ok leg"
    and bal: "debits legs = credits legs" "debits legs < 2 ^ 63" and can: "can_book D q0 key legs now"
    and accts: "locked D (lock_order (map l_account_id legs)) accts"
  shows "succeeds (reading D C L q0)
     (await (svc env (create_transaction key TS_Pending metadata now None)) (\<lambda>transaction_id.
      await (create_entries env transaction_id accts now legs [] []) (\<lambda>(es, balance_updates).
      await (apply_balance_updates env accts balance_updates) (\<lambda>_.
      await (commit env) (\<lambda>_.
      await (update_cache balance_updates) (\<lambda>_.
      await (count_event ''fides_transactions_total'' ''pending'') (\<lambda>_.
      attempt (map_err (\<lambda>e. service_error (ServiceError_from_TransactionError e))
        (Transaction_new transaction_id key TS_Pending metadata now 0)) (\<lambda>transaction.
      Done (Ok \<lparr> aus_transaction = transaction_to_proto transaction,
                 aus_entries = map entry_to_proto es \<rparr>)))))))))"
proof -
  have ids: "distinct (map ar_id (tbl_accounts D))" using inv by (simp add: tables_inv_def accounts_wf_def)
  from can obtain k where k: "varchar 64 key = Ok k" "k \<notin> tr_idempotency_key ` set (tbl_transactions D)"
    and now: "0 < sint now" and seqs: "in_i64 (int (transactions_id_seq q0))" "in_i64 (int (entries_id_seq q0 + length legs))"
    by (auto simp: can_book_def)
  show ?thesis
  proof (rule ends_await [OF triple_svc [OF triple_create_transaction [OF inv key]]
        succeeds_svc [OF succeeds_create_transaction [OF inv k now seqs(1)]]], intro ends_ex ends_pre_pure, goal_cases)
    case (1 i t q)
    let ?W = "D\<lparr>tbl_transactions := tbl_transactions D @ [t]\<rparr>"
    have start: "new_entries_ok D q (tr_id t) []" "leg_rows (tr_id t) now [] []" "row_entries [] []"
      "updates_for 0 1 (nb_in D) (map leg_item []) []"
      using inv 1 by (simp_all add: new_entries_ok_Nil leg_rows_def row_entries_def)
    have W: "?W\<lparr>tbl_entries := tbl_entries D @ []\<rparr> = ?W" by simp
    have acct: "tbl_accounts ?W = tbl_accounts D" "tr_id t \<in> tr_id ` set (tbl_transactions ?W)" by simp_all
    have seq: "in_i64 (int (entries_id_seq q + length legs))" using seqs(2) 1 by simp
    have sub: "set (map l_account_id legs) \<subseteq> set (lock_order (map l_account_id legs))" by simp
    show ?case unfolding \<open>i = _\<close>
    proof (rule ends_await [OF triple_create_entries [OF accts ids acct(1) 1(4) sub start, unfolded W append_Nil]
          succeeds_create_entries [OF accts ids acct now 1(4) sub legs seq start, unfolded W]],
        goal_cases)
      case (2 x)
      obtain es us where x: "x = (es, us)" by force
      show ?case unfolding x case_prod_conv
      proof (intro ends_ex ends_pre_pure, goal_cases)
        case (1 rs q')
        have names: "set (map fst us) \<subseteq> set (lock_order (map l_account_id legs))"
          using updates_for_accounts [OF 1(4)] by (simp add: image_image)
        have bump: "bump_ok us a \<and> account_row_ok a" if "a \<in> set (tbl_accounts D)" for a
          using can_book_bump_ok [OF can that ids 1(2,1,4) bal] inv_rows(1) [OF inv that] ..
        have "succeeds (tx_in D C L (\<lambda>V r. V = ?W\<lparr>tbl_entries := tbl_entries D @ rs\<rparr> \<and> r = q')) (apply_balance_updates env accts us)"
          by (rule succeeds_apply_balance_updates [OF seq_le_refl])
            (use current_locked [OF accts names ids, of "?W\<lparr>tbl_entries := tbl_entries D @ rs\<rparr>"] 1(4) ids bump
              in \<open>simp_all add: updates_for_def\<close>)
        then show ?case unfolding Transaction_new_pending [OF key now] map_err.simps attempt_Ok
          by (intro ends_await_any succeeds_commit succeeds_update_cache succeeds_count_event ends_Done is_ok.simps(1) [THEN iffD2] TrueI)
      qed
    qed simp
  qed
qed

definition new_verdict :: "'j tables \<Rightarrow> BalanceCache \<Rightarrow> TransferLeg list \<Rightarrow> (AuthorizeResponse, abort) result \<Rightarrow> bool" where
  "new_verdict D C legs r \<longleftrightarrow>
     (case find (\<lambda>i. \<not> exists_account D i) (lock_order (map l_account_id legs)) of
        Some i \<Rightarrow> r = Err (service_error (AccountNotFound (account_id_value i)))
      | None \<Rightarrow>
          (case find (short_of_funds D C) legs of
             Some leg \<Rightarrow> r = Err (insufficient C leg)
           | None \<Rightarrow> is_ok r))"

lemma ends_authorize_new:
  assumes inv: "tables_inv D q0" and key: "key \<noteq> []" and legs: "\<And>leg. leg \<in> set legs \<Longrightarrow> leg_ok leg"
    and bal: "debits legs = credits legs" "debits legs < 2 ^ 63"
    and cached: "\<And>i. exists_account D i \<Longrightarrow> cache_get C i \<noteq> None"
    and can: "can_book D q0 key legs now"
  shows "ends (reading D C L q0) (authorize_new env key metadata legs now) (new_verdict D C legs)"
proof -
  let ?ids = "lock_order (map l_account_id legs)"
  have ids: "distinct (map ar_id (tbl_accounts D))" using inv by (simp add: tables_inv_def accounts_wf_def)
  have nil: "locked D [] []" by (simp add: locked_def)
  show ?thesis
  proof (cases "find (\<lambda>i. \<not> exists_account D i) ?ids")
    case (Some i)
    then show ?thesis unfolding authorize_new_def
      by (intro ends_await_Err [OF ends_lock_accounts_missing [OF inv Some nil]]) (simp add: new_verdict_def)
  next
    case None
    then have all: "account_id_value ` set ?ids \<subseteq> ar_id ` set (tbl_accounts D)"
      by (auto simp: find_None_iff exists_account_def)
    show ?thesis unfolding authorize_new_def
    proof (rule ends_await [OF triple_lock_accounts [OF nil] succeeds_lock_accounts [OF inv all nil]],
        rule ends_pre_pure, goal_cases)
      case (1 accts)
      then have accts: "locked D ?ids accts" by simp
      note funds = ends_check_available [OF accts ids cached, of legs L q0]
      show ?case
      proof (cases "find (short_of_funds D C) legs")
        case (Some leg)
        with funds None show ?thesis
          by (intro ends_await_Err [where e = "insufficient C leg"]) (simp_all add: new_verdict_def)
      next
        case short: None
        have ok: "new_verdict D C legs r \<longleftrightarrow> is_ok r" for r by (simp add: new_verdict_def None short)
        from funds short have checked: "succeeds (reading D C L q0) (check_available accts legs)" by simp
        have "ends (reading D C L q0) (await (check_available accts legs) (\<lambda>_. m)) is_ok" if "succeeds (reading D C L q0) m"
          for m :: "('a, AuthorizeResponse) rpc"
          by (rule ends_await [OF triple_check_available [OF accts ids] checked], simp, rule ends_pre_pure, rule that)
        from this [OF succeeds_book [OF inv key legs bal can accts]] show ?thesis unfolding ok .
      qed
    qed
  qed
qed

subsection \<open>The whole handler\<close>

definition authorize_verdict ::
    "'j env \<Rightarrow> 'j tables \<Rightarrow> BalanceCache \<Rightarrow> AuthorizeRequest \<Rightarrow> (AuthorizeResponse, abort) result \<Rightarrow> bool" where
  "authorize_verdict env D C req r \<longleftrightarrow>
     (if aur_idempotency_key req = [] then r = Err (service_error (InvalidArgument ''idempotency_key is required''))
      else
        (case parse_metadata env (aur_metadata req) of
           Err e \<Rightarrow> r = Err (service_error e)
         | Ok metadata \<Rightarrow>
             (case parse_transfer_legs (aur_legs req) of
                Err e \<Rightarrow> r = Err (service_error e)
              | Ok legs \<Rightarrow>
                  (case validate_transaction_balance legs of
                     Err e \<Rightarrow> r = Err (service_error (ServiceError_from_ValidationError e))
                   | Ok u \<Rightarrow>
                       if aur_idempotency_key req \<in> tr_idempotency_key ` set (tbl_transactions D) then is_ok r
                       else new_verdict D C legs r))))"

text \<open>The transfer of the request, if it is a new one, can be stored.\<close>

definition can_authorize :: "'j tables \<Rightarrow> sequences \<Rightarrow> AuthorizeRequest \<Rightarrow> i64 \<Rightarrow> bool" where
  "can_authorize D q req now \<longleftrightarrow>
     (case parse_transfer_legs (aur_legs req) of
        Err e \<Rightarrow> True
      | Ok legs \<Rightarrow> aur_idempotency_key req \<in> tr_idempotency_key ` set (tbl_transactions D)
          \<or> can_book D q (aur_idempotency_key req) legs now)"

lemma cached_accounts:
  assumes "mirrors C (tbl_accounts D)" and "exists_account D i"
  shows "cache_get C i \<noteq> None"
proof -
  obtain a where "a \<in> set (tbl_accounts D)" "ar_id a = account_id_value i" using assms(2) by (auto simp: exists_account_def)
  then have "find (\<lambda>r. ar_id r = account_id_value i) (tbl_accounts D) \<noteq> None" by (auto simp: find_None_iff)
  moreover have "cache_map C i = map_option (\<lambda>r. (ar_posted_balance r, ar_pending_balance r))
      (find (\<lambda>r. ar_id r = account_id_value i) (tbl_accounts D))"
    using assms(1) unfolding mirrors_def by (metis AccountId.collapse)
  ultimately show ?thesis by (auto simp: cache_map_def cache_get_def)
qed

lemma ends_rpc_authorize:
  assumes inv: "tables_inv D q0" and coh: "mirrors C (tbl_accounts D)"
    and can: "can_authorize D q0 req (env_now env)"
  shows "ends (starts D C L q0) (rpc_authorize env req) (authorize_verdict env D C req)"
proof (cases "aur_idempotency_key req = []")
  case True
  then show ?thesis
    by (auto simp: rpc_authorize_def authorize_verdict_def intro!: ends_drop_tx ends_Done)
next
  case key: False
  show ?thesis unfolding rpc_authorize_def if_not_P [OF key] Let_def
  proof (rule ends_drop_tx, intro ends_attempt, goal_cases)
    case (1 metadata legs u)
    then have md: "parse_metadata env (aur_metadata req) = Ok metadata" and legs: "parse_transfer_legs (aur_legs req) = Ok legs"
      and val: "validate_transaction_balance legs = Ok ()" by (simp_all add: result_simps)
    note legs_ok = parse_transfer_legs_ok [OF legs]
    have bal: "debits legs = credits legs" "debits legs < 2 ^ 63"
      using validate_transaction_balance_Ok [of legs] legs_ok val by blast+
    have verdict: "authorize_verdict env D C req r \<longleftrightarrow>
        (if aur_idempotency_key req \<in> tr_idempotency_key ` set (tbl_transactions D) then is_ok r else new_verdict D C legs r)" for r
      by (simp add: authorize_verdict_def key md legs val)
    show ?case unfolding verdict
    proof (rule ends_await [OF triple_begin_transaction succeeds_begin],
        rule ends_await [OF triple_svc [OF triple_find_transaction_by_key] succeeds_svc [OF succeeds_find_transaction_by_key [OF inv]]],
        rule ends_pre_pure, goal_cases)
      case (1 _ x)
      show ?case
      proof (cases "find (\<lambda>r. tr_idempotency_key r = aur_idempotency_key req) (tbl_transactions D)")
        case None
        then have new: "aur_idempotency_key req \<notin> tr_idempotency_key ` set (tbl_transactions D)" by (auto simp: find_None_iff)
        from this can legs have stored: "can_book D q0 (aur_idempotency_key req) legs (env_now env)"
          by (simp add: can_authorize_def)
        from new 1 None ends_authorize_new [OF inv key legs_ok bal cached_accounts [OF coh] stored] show ?thesis by simp
      next
        case (Some t)
        from find_SomeD [OF this] have "aur_idempotency_key req \<in> tr_idempotency_key ` set (tbl_transactions D)" by (metis imageI)
        moreover from 1 Some obtain y where "x = Some y" by auto
        ultimately show ?thesis
          by (auto intro!: ends_await_any [OF succeeds_svc [OF succeeds_get_entries(1) [OF inv]]]
              ends_await_any succeeds_commit succeeds_count_event ends_Done)
      qed
    qed
  qed (auto simp: authorize_verdict_def key result_simps)
qed

end
