(* ===== verification/Requests.thy ===== *)
theory Requests
  imports Journal Accept
begin

section \<open>Sequences of requests\<close>

text \<open>
  What one request sees of another: an account that was created is read back as it was
  announced, a transfer that was authorised is found again under its key, and the balance
  that is reported is the sum of the entries. The first request may run under faults; the
  second is answered on a healthy database.
\<close>

lemma ends_run:
  assumes "ends (starts (srv_db s) (srv_cache s) (lossy s) (srv_seqs s)) m F" and "srv_faults s = []"
  obtains r t where "prun m s = (r, t)" and "F r"
proof -
  have "F (fst (prun m s))" using assms by (simp add: ends_def starts_def)
  with that show thesis by (metis prod.collapse)
qed

lemma ends_healthy:
  assumes "ends (starts (srv_db s) (srv_cache s) True (srv_seqs s)) m F"
  shows "F (fst (prun m (s\<lparr>srv_faults := []\<rparr>)))"
  using assms by (simp add: ends_def starts_def)

lemma succeeds_run:
  assumes "ends (starts (srv_db s) (srv_cache s) (lossy s) (srv_seqs s)) m F" and "srv_faults s = []" and "\<And>r. F r \<Longrightarrow> is_ok r"
  obtains x t where "prun m s = (Ok x, t)"
  using ends_run [OF assms(1,2)] assms(3) that by (metis is_ok.elims(2))

lemma find_append: "find P (xs @ ys) = (case find P xs of None \<Rightarrow> find P ys | Some x \<Rightarrow> Some x)"
  by (induction xs) auto

subsection \<open>Reading an account\<close>

definition get_account_verdict :: "'j tables \<Rightarrow> i64 \<Rightarrow> (ProtoAccount, abort) result \<Rightarrow> bool" where
  "get_account_verdict D i r \<longleftrightarrow>
     (case find (\<lambda>r. ar_id r = i) (tbl_accounts D) of
        None \<Rightarrow> r = Err (service_error (AccountNotFound i))
      | Some row \<Rightarrow> r = Ok (account_proto_of_row row))"

lemma ends_rpc_get_account:
  assumes inv: "tables_inv D q0" and i: "0 < sint i"
  shows "ends (starts D C L q0) (rpc_get_account env i) (get_account_verdict D i)"
proof -
  have id: "AccountId_new i = Ok (AccountId i)" using i by (simp add: AccountId_new_def)
  show ?thesis
    unfolding rpc_get_account_def get_account_def id map_err.simps attempt_Ok AccountId.sel
  proof (rule ends_drop_tx, rule ends_await [OF triple_begin_transaction succeeds_begin],
      rule ends_await [OF triple_svc [OF triple_fetch_account] succeeds_svc [OF succeeds_fetch_account [OF inv]]],
      rule ends_pre_pure, goal_cases)
    case (1 _ found)
    then show ?case
      by (auto simp: get_account_verdict_def account_to_proto_row result_simps split: option.splits
          intro!: ends_attempt ends_await_any succeeds_commit ends_Done)
  qed
qed

lemma create_account_read_back:
  assumes inv: "ledger_inv s" and run: "prun (rpc_create_account env req) s = (Ok a, t)"
    and code: "length (car_asset_code req) \<le> 16" and later: "srv_db u = srv_db t" "srv_seqs u = srv_seqs t" "srv_faults u = []"
  shows "fst (prun (rpc_get_account env' (pa_id a)) u) = Ok a"
proof -
  have D: "tables_inv (srv_db s) (srv_seqs s)" using inv by (simp add: ledger_inv_def)
  from run_Ok [OF triple_rpc_create_account [OF D] run] obtain ty row q
    where new: "creates_account (srv_db s) (srv_seqs s) ty (car_asset_code req) (ucast (car_asset_scale req)) (env_now env) row q"
      and t: "srv_db t = account_added (srv_db s) row" and a: "a = (account_proto_of_row row)\<lparr>pa_asset_code := car_asset_code req\<rparr>"
    by (auto simp: closed_def)
  have fresh: "ar_id row \<notin> ar_id ` set (tbl_accounts (srv_db s))" and "account_row_ok row"
    and fields: "new_account_row ty (car_asset_code req) (ucast (car_asset_scale req)) (env_now env) (ar_id row) row"
    using new by (simp_all add: creates_account_def)
  have a': "a = account_proto_of_row row"
    using new_account_row_fields(7) [OF fields] by (simp add: a account_proto_of_row_def varchar_short [OF code])
  have "ledger_inv t" using creating.keeps_inv [OF inv, of env req] run by simp
  then have U: "tables_inv (srv_db u) (srv_seqs u)" by (simp add: ledger_inv_def later)
  have pos: "0 < sint (pa_id a)" using \<open>account_row_ok row\<close> by (simp add: a' account_proto_of_row_def account_row_ok_def)
  have id: "pa_id a = ar_id row" by (simp add: a' account_proto_of_row_def)
  have "find (\<lambda>r. ar_id r = pa_id a) (tbl_accounts (srv_db s)) = None"
    unfolding find_None_iff id using fresh by (metis imageI)
  then have "find (\<lambda>r. ar_id r = pa_id a) (tbl_accounts (srv_db u)) = Some row"
    by (simp add: later t account_added_def find_append) (simp add: id)
  then have verdict: "get_account_verdict (srv_db u) (pa_id a) r \<longleftrightarrow> r = Ok a" for r
    by (simp add: get_account_verdict_def a')
  obtain r v where "prun (rpc_get_account env' (pa_id a)) u = (r, v)" "get_account_verdict (srv_db u) (pa_id a) r"
    by (rule ends_run [OF ends_rpc_get_account [OF U pos] later(3)])
  then show ?thesis by (simp add: verdict)
qed

subsection \<open>Reading a balance\<close>

definition balance_of_entries :: "entry_row list \<Rightarrow> account_row \<Rightarrow> ProtoBalance \<Rightarrow> bool" where
  "balance_of_entries es a b \<longleftrightarrow>
     sint (pb_posted b) = account_sum 2 a es \<and> sint (pb_pending b) = account_sum 1 a es
     \<and> pb_available b = i64_saturating_sub (pb_posted b) (pb_pending b)"

lemma get_balance_exact:
  assumes inv: "ledger_inv s" and coh: "cache_coherent s" and a: "a \<in> set (tbl_accounts (srv_db s))"
  shows "\<exists>b. prun (rpc_get_balance env (ar_id a)) s = (Ok b, s) \<and> balance_of_entries (tbl_entries (srv_db s)) a b"
proof -
  have D: "tables_inv (srv_db s) (srv_seqs s)" using inv by (simp add: ledger_inv_def)
  then have sums: "sint (ar_posted_balance a) = account_sum 2 a (tbl_entries (srv_db s))"
    "sint (ar_pending_balance a) = account_sum 1 a (tbl_entries (srv_db s))"
    using a by (simp_all add: tables_inv_def balances_ok_def)
  have "0 < sint (ar_id a)" using inv_rows(1) [OF D a] by (simp add: account_row_ok_def)
  moreover have "cache_map (srv_cache s) (AccountId (ar_id a)) = Some (ar_posted_balance a, ar_pending_balance a)"
    using coh find_row_iff [OF distinct_account_ids [OF D], of "ar_id a" a] a by (simp add: cache_coherent_def mirrors_def)
  ultimately show ?thesis
    using sums
    by (auto simp: rpc_get_balance_def AccountId_new_def read_cache_def prun_await cache_get_def cache_map_def
        balance_of_entries_def AccountBalance_from_computed_def Let_def)
qed

subsection \<open>Authorising again\<close>

lemma keys_kept:
  assumes "journal_step (Authorize req) (AuthorizationResponse r) (journal_of D) (journal_of T)"
    and "length (aur_idempotency_key req) \<le> 64"
  shows "\<exists>t. find (\<lambda>t. tf_key t = aur_idempotency_key req) (j_transfers (journal_of T)) = Some t
    \<and> tf_id t = pt_id (aus_transaction r) \<and> tf_items t = map proto_item (aus_entries r)"
proof (cases "find (\<lambda>t. tf_key t = aur_idempotency_key req) (j_transfers (journal_of D))")
  case None
  with assms show ?thesis
    by (auto simp: find_append book_def varchar_short)
qed (use assms in auto)

lemma attempt_prun_Ok: "prun (attempt r k) s = (Ok x, t) \<Longrightarrow> is_ok r"
  by (cases r) auto

lemma accepted_request:
  assumes "prun (rpc_authorize env req) s = (Ok r, t)"
  shows "aur_idempotency_key req \<noteq> []" and "is_ok (parse_metadata env (aur_metadata req))"
    and "\<exists>legs. parse_transfer_legs (aur_legs req) = Ok legs \<and> validate_transaction_balance legs = Ok ()"
proof -
  have "aur_idempotency_key req \<noteq> [] \<and> is_ok (parse_metadata env (aur_metadata req))
      \<and> (\<exists>legs. parse_transfer_legs (aur_legs req) = Ok legs \<and> validate_transaction_balance legs = Ok ())"
    using assms unfolding rpc_authorize_def drop_tx_def
    by (cases "parse_metadata env (aur_metadata req)"; cases "parse_transfer_legs (aur_legs req)")
      (auto simp: prun_pbind split: if_splits prod.splits result.splits
        dest!: attempt_prun_Ok elim!: is_ok.elims simp: result_simps)
  then show "aur_idempotency_key req \<noteq> []" and "is_ok (parse_metadata env (aur_metadata req))"
    and "\<exists>legs. parse_transfer_legs (aur_legs req) = Ok legs \<and> validate_transaction_balance legs = Ok ()" by auto
qed

lemma authorize_again:
  assumes inv: "ledger_inv s" and coh: "cache_coherent s" "\<not> lossy s" and key: "length (aur_idempotency_key req) \<le> 64"
    and run: "prun (rpc_authorize env req) s = (Ok r, t)"
    and later: "srv_db u = srv_db t" "srv_seqs u = srv_seqs t" "srv_cache u = srv_cache t" "srv_faults u = []"
  shows "\<exists>r' v. prun (rpc_authorize (env\<lparr>env_now := now\<rparr>) req) u = (Ok r', v) \<and> srv_db v = srv_db u \<and> srv_cache v = srv_cache u
    \<and> pt_id (aus_transaction r') = pt_id (aus_transaction r)
    \<and> map proto_item (aus_entries r') = map proto_item (aus_entries r)"
proof -
  let ?key = "aur_idempotency_key req"
  have "ledger_inv t" "cache_coherent t"
    using authorizing.keeps_inv [OF inv, of env req] authorizing.keeps_cache [OF inv coh, of env req] run by simp_all
  then have U: "ledger_inv u" "tables_inv (srv_db u) (srv_seqs u)" "mirrors (srv_cache u) (tbl_accounts (srv_db u))"
    by (simp_all add: ledger_inv_def cache_coherent_def later)
  from keys_kept [OF authorize_refines [OF inv run] key] obtain tf
    where tf: "find (\<lambda>t. tf_key t = ?key) (j_transfers (journal_of (srv_db u))) = Some tf"
      "tf_id tf = pt_id (aus_transaction r)" "tf_items tf = map proto_item (aus_entries r)" by (auto simp: later)
  then obtain row where row: "find (\<lambda>t. tr_idempotency_key t = ?key) (tbl_transactions (srv_db u)) = Some row"
    unfolding find_transfer by auto
  with find_SomeD [OF this] have known: "?key \<in> tr_idempotency_key ` set (tbl_transactions (srv_db u))" by (metis imageI)
  have "parse_metadata (env\<lparr>env_now := now\<rparr>) (aur_metadata req) = parse_metadata env (aur_metadata req)"
    by (simp add: parse_metadata_def)
  with accepted_request [OF run] known
  have "authorize_verdict (env\<lparr>env_now := now\<rparr>) (srv_db u) (srv_cache u) req x \<Longrightarrow> is_ok x" for x
    by (auto simp: authorize_verdict_def elim!: is_ok.elims)
  moreover have can: "can_authorize (srv_db u) (srv_seqs u) req n" for n
    using known by (simp add: can_authorize_def split: result.split)
  ultimately obtain r' v where run': "prun (rpc_authorize (env\<lparr>env_now := now\<rparr>) req) u = (Ok r', v)"
    using succeeds_run [OF ends_rpc_authorize [OF U(2,3) can] later(4)] by metis
  have "closed (srv_db u) (srv_seqs u) (srv_cache u) v"
    using run_Ok [OF triple_rpc_authorize [OF U(2)] run'] by (simp add: row)
  moreover have "pt_id (aus_transaction r') = tf_id tf \<and> map proto_item (aus_entries r') = tf_items tf"
    using authorize_refines [OF U(1) run'] by (simp add: tf(1))
  ultimately show ?thesis using run' by (simp add: closed_def tf)
qed

end
