(* ===== verification/Tasks.thy ===== *)
theory Tasks
  imports Server
begin

section \<open>Requests served concurrently\<close>

text \<open>
  Each request is a task with its own database session: its remaining program, its open
  transaction and the row locks it holds. A step runs one atomic piece of one task; it has
  to wait while another task holds a lock the piece needs. Locks are released when the
  transaction ends. Every schedule ends, and a task that runs alone does what \<open>prun\<close> says.
\<close>

subsection \<open>Tasks and schedules\<close>

type_synonym 'j task = "(row_lock list, 'j server, (response, abort) result) prog"

record 'j session =
  ses_prog :: "'j task"
  ses_tx :: "('j tables \<Rightarrow> 'j tables) option"
  ses_locks :: "row_lock list"

fun finished :: "('l, 's, 'a) prog \<Rightarrow> bool" where
  "finished (Done r) \<longleftrightarrow> True"
| "finished (Step l f) \<longleftrightarrow> False"

fun wants :: "('l list, 's, 'a) prog \<Rightarrow> 'l list" where
  "wants (Done r) = []"
| "wants (Step l f) = l"

definition may_step :: "'j session list \<Rightarrow> nat \<Rightarrow> bool" where
  "may_step ss k \<longleftrightarrow>
     k < length ss \<and> \<not> finished (ses_prog (ss ! k))
     \<and> (\<forall>j < length ss. j \<noteq> k \<longrightarrow> set (wants (ses_prog (ss ! k))) \<inter> set (ses_locks (ss ! j)) = {})"

text \<open>The next piece of a task, run on the shared state with the task's own transaction.\<close>

definition advance :: "'j server \<Rightarrow> 'j session \<Rightarrow> 'j server \<times> 'j session" where
  "advance s x =
     (case ses_prog x of
        Done r \<Rightarrow> (s, x)
      | Step l f \<Rightarrow>
          (case f (s\<lparr>srv_tx := ses_tx x\<rparr>) of (t, p) \<Rightarrow>
             (t\<lparr>srv_tx := None\<rparr>,
              \<lparr> ses_prog = p, ses_tx = srv_tx t,
                ses_locks = (if srv_tx t = None then [] else l @ ses_locks x) \<rparr>)))"

inductive interleaves :: "'j server \<times> 'j session list \<Rightarrow> 'j server \<times> 'j session list \<Rightarrow> bool" where
  "may_step ss k \<Longrightarrow> advance s (ss ! k) = (t, x) \<Longrightarrow> interleaves (s, ss) (t, ss[k := x])"

inductive_cases interleavesE: "interleaves (s, ss) c"

fun schedule :: "nat list \<Rightarrow> 'j server \<times> 'j session list \<Rightarrow> ('j server \<times> 'j session list) option" where
  "schedule [] c = Some c"
| "schedule (k # ks) (s, ss) =
     (if may_step ss k then (case advance s (ss ! k) of (t, x) \<Rightarrow> schedule ks (t, ss[k := x])) else None)"

definition accepted :: "('j env \<times> request) list \<Rightarrow> 'j session list" where
  "accepted reqs = map (\<lambda>(env, req). \<lparr> ses_prog = dispatch env req, ses_tx = None, ses_locks = [] \<rparr>) reqs"

lemma schedule_interleaves: "schedule ks c = Some d \<Longrightarrow> interleaves\<^sup>*\<^sup>* c d"
proof (induction ks c rule: schedule.induct)
  case (2 k ks s ss)
  then obtain t x where "may_step ss k" and adv: "advance s (ss ! k) = (t, x)" and "schedule ks (t, ss[k := x]) = Some d"
    by (auto split: if_splits prod.splits)
  then have "interleaves (s, ss) (t, ss[k := x])" and "interleaves\<^sup>*\<^sup>* (t, ss[k := x]) d"
    using 2(1) [OF _ adv [symmetric]] by (blast intro: interleaves.intros)+
  then show ?case by (rule converse_rtranclp_into_rtranclp)
qed simp

subsection \<open>Every schedule ends\<close>

definition piece_of :: "(('l, 's, 'a) prog \<times> ('l, 's, 'a) prog) set" where
  "piece_of = {(snd (f s), Step l f) | l f s. True}"

lemma wf_piece_of: "wf (piece_of :: (('l, 's, 'a) prog \<times> ('l, 's, 'a) prog) set)"
proof (rule wfUNIVI)
  fix P and p :: "('l, 's, 'a) prog"
  assume step: "\<forall>p :: ('l, 's, 'a) prog. (\<forall>q. (q, p) \<in> piece_of \<longrightarrow> P q) \<longrightarrow> P p"
  show "P p"
  proof (induction p)
    case (Done r)
    show ?case using step by (auto simp: piece_of_def)
  next
    case (Step l f)
    have "P q" if "(q, Step l f) \<in> piece_of" for q
    proof -
      from that obtain s where "q = snd (f s)" by (auto simp: piece_of_def)
      then show ?thesis using Step [of "f s" q] by (auto simp: snds.simps)
    qed
    with step show ?case by blast
  qed
qed

lemma interleaves_smaller:
  "interleaves (s, ss) (t, ts) \<Longrightarrow> (map ses_prog ts, map ses_prog ss) \<in> listrel1 piece_of"
proof (erule interleavesE)
  fix k t' x assume step: "(t, ts) = (t', ss[k := x])" "may_step ss k" "advance s (ss ! k) = (t', x)"
  then obtain l f where p: "ses_prog (ss ! k) = Step l f" and k: "k < length ss"
    by (cases "ses_prog (ss ! k)") (auto simp: may_step_def)
  with step have "ses_prog x = snd (f (s\<lparr>srv_tx := ses_tx (ss ! k)\<rparr>))"
    by (auto simp: advance_def split: prod.splits)
  then have "(ses_prog x, ses_prog (ss ! k)) \<in> piece_of" unfolding p piece_of_def by blast
  moreover have "(map ses_prog ss)[k := ses_prog (ss ! k)] = map ses_prog ss" using k by (metis list_update_id nth_map)
  ultimately show "(map ses_prog ts, map ses_prog ss) \<in> listrel1 piece_of"
    unfolding listrel1_iff_update using step k
    by (intro exI [of _ "ses_prog (ss ! k)"] exI [of _ k]) (simp add: map_update)
qed


subsection \<open>A task on its own\<close>

lemma alone_run:
  assumes "prun p (s\<lparr>srv_tx := w\<rparr>) = (r, t)"
  shows "\<exists>ls'. interleaves\<^sup>*\<^sup>* (s, [\<lparr> ses_prog = p, ses_tx = w, ses_locks = ls \<rparr>])
    (if finished p then s else t\<lparr>srv_tx := None\<rparr>, [\<lparr> ses_prog = Done r, ses_tx = srv_tx t, ses_locks = ls' \<rparr>])"
  using assms
proof (induction p arbitrary: s w ls)
  case (Done x)
  then show ?case by auto
next
  case (Step l f)
  obtain u p where u: "f (s\<lparr>srv_tx := w\<rparr>) = (u, p)" by force
  then have run: "prun p u = (r, t)" using Step.prems by (simp add: prun_Step)
  let ?ls = "if srv_tx u = None then [] else l @ ls"
  have "interleaves (s, [\<lparr> ses_prog = Step l f, ses_tx = w, ses_locks = ls \<rparr>])
      (u\<lparr>srv_tx := None\<rparr>, [\<lparr> ses_prog = Step l f, ses_tx = w, ses_locks = ls \<rparr>][0 := \<lparr> ses_prog = p, ses_tx = srv_tx u, ses_locks = ?ls \<rparr>])"
    by (rule interleaves.intros) (simp_all add: may_step_def advance_def u)
  moreover have "\<exists>ls'. interleaves\<^sup>*\<^sup>* (u\<lparr>srv_tx := None\<rparr>, [\<lparr> ses_prog = p, ses_tx = srv_tx u, ses_locks = ?ls \<rparr>])
      (if finished p then u\<lparr>srv_tx := None\<rparr> else t\<lparr>srv_tx := None\<rparr>, [\<lparr> ses_prog = Done r, ses_tx = srv_tx t, ses_locks = ls' \<rparr>])"
  proof (rule Step.IH)
    show "(u, p) \<in> range f" using u by (metis rangeI)
  qed (simp_all add: run)
  moreover have "t = u" if "finished p" using that run by (cases p) auto
  ultimately show ?case by (auto intro: converse_rtranclp_into_rtranclp split: if_splits)
qed

end
