(* ===== verification/Locking.thy ===== *)
theory Locking
  imports Tasks "HOL-Library.Product_Lexorder" "HOL-Library.List_Lexorder" "HOL-Library.Char_ord"
begin

section \<open>Row locks\<close>

text \<open>
  All handlers take their locks in one global order: accounts by their identifiers, then the
  transaction, then its entries, then the idempotency key. A task that takes its locks in
  this order can wait only for locks above its own, so no set of tasks can block itself. The
  same traversal of the handlers shows that each has at most one transaction and writes only
  rows and keys whose locks it holds.
\<close>

subsection \<open>The order of the locks\<close>

fun lock_rank :: "row_lock \<Rightarrow> nat \<times> int \<times> string" where
  "lock_rank (LockAccount i) = (0, sint i, [])"
| "lock_rank (LockTransaction i) = (1, sint i, [])"
| "lock_rank (LockEntriesOf i) = (2, sint i, [])"
| "lock_rank (LockKey k) = (3, 0, k)"

lemma lock_rank_inject: "lock_rank x = lock_rank y \<longleftrightarrow> x = y"
  by (cases x; cases y) auto

instantiation row_lock :: linorder
begin

definition less_eq_row_lock :: "row_lock \<Rightarrow> row_lock \<Rightarrow> bool" where
  "less_eq_row_lock x y \<longleftrightarrow> lock_rank x \<le> lock_rank y"

definition less_row_lock :: "row_lock \<Rightarrow> row_lock \<Rightarrow> bool" where
  "less_row_lock x y \<longleftrightarrow> lock_rank x < lock_rank y"

instance
proof
  fix x y z :: row_lock
  show "x < y \<longleftrightarrow> x \<le> y \<and> \<not> y \<le> x" by (auto simp: less_eq_row_lock_def less_row_lock_def)
  show "x \<le> x" by (simp add: less_eq_row_lock_def)
  show "x \<le> y \<Longrightarrow> y \<le> z \<Longrightarrow> x \<le> z" unfolding less_eq_row_lock_def by (rule order_trans)
  show "x \<le> y \<Longrightarrow> y \<le> x \<Longrightarrow> x = y" unfolding less_eq_row_lock_def by (metis antisym lock_rank_inject)
  show "x \<le> y \<or> y \<le> x" unfolding less_eq_row_lock_def by (rule linear)
qed

end

subsection \<open>What a task may do\<close>

text \<open>
  A task is before, inside or after its one database transaction. A write is confined to the
  locks \<open>A\<close> if it keeps every account row whose lock is not among them. The idempotency keys it
  adds are locked, and are new in the tables \<open>T\<close> it was made for.
\<close>

datatype 'j phase = Before | Inside "'j tables \<Rightarrow> 'j tables" | After

fun tx_of :: "'j phase \<Rightarrow> ('j tables \<Rightarrow> 'j tables) option" where
  "tx_of Before = None"
| "tx_of (Inside w) = Some w"
| "tx_of After = None"

definition next_phase :: "'j phase \<Rightarrow> ('j tables \<Rightarrow> 'j tables) option \<Rightarrow> 'j phase" where
  "next_phase p w = (case w of Some v \<Rightarrow> Inside v | None \<Rightarrow> (case p of Before \<Rightarrow> Before | _ \<Rightarrow> After))"

definition confined :: "row_lock set \<Rightarrow> ('j tables \<Rightarrow> 'j tables) \<Rightarrow> bool" where
  "confined A v \<longleftrightarrow>
     (\<forall>T. \<forall>r \<in> set (tbl_accounts T). LockAccount (ar_id r) \<notin> A \<longrightarrow> r \<in> set (tbl_accounts (v T)))"

definition keys_of :: "'j tables \<Rightarrow> string list" where
  "keys_of T = map tr_idempotency_key (tbl_transactions T)"

definition new_keys :: "row_lock set \<Rightarrow> 'j tables \<Rightarrow> ('j tables \<Rightarrow> 'j tables) \<Rightarrow> string list \<Rightarrow> bool" where
  "new_keys A T v ks \<longleftrightarrow>
     (\<forall>T'. keys_of (v T') = keys_of T' @ ks) \<and> distinct ks \<and> set ks \<inter> set (keys_of T) = {} \<and> LockKey ` set ks \<subseteq> A"

definition sound_write :: "row_lock set \<Rightarrow> 'j tables \<Rightarrow> ('j tables \<Rightarrow> 'j tables) \<Rightarrow> bool" where
  "sound_write A T v \<longleftrightarrow> confined A v \<and> (\<exists>ks. new_keys A T v ks)"

text \<open>
  One step from \<open>s\<close> to \<open>t\<close> in a phase: outside the transaction the tables and the sequences
  stay; there is at most one transaction; inside, the step adds a sound write, or ends the
  transaction, with or without applying its writes.
\<close>

fun lawful :: "row_lock set \<Rightarrow> 'j phase \<Rightarrow> 'j server \<Rightarrow> 'j server \<Rightarrow> bool" where
  "lawful A Before s t \<longleftrightarrow>
     srv_db t = srv_db s \<and> srv_seqs t = srv_seqs s \<and> (srv_tx t = None \<or> srv_tx t = Some id)"
| "lawful A After s t \<longleftrightarrow> srv_db t = srv_db s \<and> srv_seqs t = srv_seqs s \<and> srv_tx t = None"
| "lawful A (Inside w) s t \<longleftrightarrow>
     seq_le (srv_seqs s) (srv_seqs t)
     \<and> (srv_db t = srv_db s \<and> (srv_tx t = None \<or> (\<exists>v. srv_tx t = Some (v \<circ> w) \<and> sound_write A (w (srv_db s)) v))
        \<or> srv_db t = w (srv_db s) \<and> srv_tx t = None)"

definition proper :: "row_lock set \<Rightarrow> ('j, 'a) statement \<Rightarrow> bool" where
  "proper A st \<longleftrightarrow> (\<forall>T q. case st T q of (r, v, q') \<Rightarrow> sound_write A T v \<and> seq_le q q')"

lemma next_phase_simps [simp]:
  "next_phase p (tx_of p) = p" "next_phase p (Some w) = Inside w" "next_phase Before None = Before"
  "next_phase (Inside w) None = After" "next_phase After None = After"
  by (cases p) (simp_all add: next_phase_def)

lemma tx_of_next [simp]: "tx_of (next_phase p w) = w"
  by (simp add: next_phase_def split: option.split phase.split)

lemma tx_of_inside: "tx_of p \<noteq> None \<longleftrightarrow> (\<exists>w. p = Inside w)"
  by (cases p) auto

lemma confined_id [simp]: "confined A id"
  by (simp add: confined_def)

lemma confined_comp: "confined A v \<Longrightarrow> confined A w \<Longrightarrow> confined A (v \<circ> w)"
  by (simp add: confined_def)

lemma confined_mono: "confined A v \<Longrightarrow> A \<subseteq> B \<Longrightarrow> confined B v"
  unfolding confined_def by blast

lemma new_keys_comp: "new_keys A T w ks \<Longrightarrow> new_keys A (w T) v ks' \<Longrightarrow> new_keys A T (v \<circ> w) (ks @ ks')"
  by (auto simp: new_keys_def)

lemma new_keys_mono: "new_keys A T v ks \<Longrightarrow> A \<subseteq> B \<Longrightarrow> new_keys B T v ks"
  unfolding new_keys_def by blast

lemma sound_no_key: "confined A v \<Longrightarrow> (\<And>T'. keys_of (v T') = keys_of T') \<Longrightarrow> sound_write A T v"
  unfolding sound_write_def new_keys_def by (intro conjI exI [of _ "[]"]) auto

lemma sound_id [simp]: "sound_write A T id"
  by (rule sound_no_key) simp_all

lemma sound_entries [simp]: "sound_write A T (tbl_entries_update f)"
  by (rule sound_no_key) (simp_all add: confined_def keys_of_def)

lemma sound_account [simp]: "sound_write A T (tbl_accounts_update (\<lambda>rows. rows @ [r]))"
  by (rule sound_no_key) (simp_all add: confined_def keys_of_def)

lemma sound_balances [intro!]:
  "(\<And>r. P r \<Longrightarrow> LockAccount (ar_id r) \<in> A) \<Longrightarrow> sound_write A T (tbl_accounts_update (set_where P f))"
  by (rule sound_no_key) (force simp: confined_def keys_of_def set_where_def)+

lemma sound_transaction:
  "tr_idempotency_key r \<notin> set (keys_of T) \<Longrightarrow> LockKey (tr_idempotency_key r) \<in> A
    \<Longrightarrow> sound_write A T (tbl_transactions_update (\<lambda>rows. rows @ [r]))"
  by (auto simp: sound_write_def confined_def new_keys_def keys_of_def intro!: exI [of _ "[tr_idempotency_key r]"])

lemma sound_statuses:
  assumes "\<And>r r'. f r = Ok r' \<Longrightarrow> tr_idempotency_key r' = tr_idempotency_key r"
  shows "sound_write A T (tbl_transactions_update (set_where P f))"
  by (rule sound_no_key) (auto simp: confined_def keys_of_def set_where_def dest: assms split: result.split)

lemma proper_select [simp]: "proper A (select f)"
  by (simp add: proper_def select_def)

lemma proper_insert [intro!]:
  assumes "\<And>T i r. build T i = Ok r \<Longrightarrow> sound_write A T (put r)" and "\<And>q. seq_le q (bump q)"
  shows "proper A (insert_returning seq bump build put)"
  using assms by (auto simp: proper_def insert_returning_def split: result.split)

lemma proper_update [intro!]: "(\<And>T. sound_write A T (upd (set_where P f))) \<Longrightarrow> proper A (update_where get upd P f)"
  by (auto simp: proper_def update_where_def split: result.split)

lemma seq_le_bump [simp]:
  "seq_le q (accounts_id_seq_update Suc q)" "seq_le q (transactions_id_seq_update Suc q)"
  "seq_le q (entries_id_seq_update Suc q)"
  by (simp_all add: seq_le_def)

text \<open>A step that changes neither the tables nor the transaction is lawful in every phase.\<close>

definition same_tables :: "'j server \<Rightarrow> 'j server \<Rightarrow> bool" where
  "same_tables s t \<longleftrightarrow> srv_tx t = srv_tx s \<and> srv_db t = srv_db s \<and> srv_seqs t = srv_seqs s"

lemma lawful_same: "same_tables (s\<lparr>srv_tx := tx_of p\<rparr>) t \<Longrightarrow> lawful A p s t"
  by (cases p) (auto simp: same_tables_def intro: exI [of _ id])

subsection \<open>The handlers take their locks in order\<close>

text \<open>
  From a state in which the task has the locks \<open>H\<close> and is in the phase \<open>w\<close>, every step is
  lawful and takes only locks it has or that come after all it has, and a final result, with
  the locks and the phase then, satisfies \<open>Q\<close>.
\<close>

definition in_order :: "row_lock list \<Rightarrow> row_lock set \<Rightarrow> bool" where
  "in_order l H \<longleftrightarrow> (\<forall>x \<in> set l. x \<in> H \<or> (\<forall>y \<in> H. y < x))"

definition held :: "row_lock set \<Rightarrow> row_lock list \<Rightarrow> ('j tables \<Rightarrow> 'j tables) option \<Rightarrow> row_lock set" where
  "held H l w = (if w = None then {} else H \<union> set l)"

primrec orderly ::
    "(row_lock list, 'j server, 'a) prog \<Rightarrow> row_lock set \<Rightarrow> 'j phase \<Rightarrow> ('a \<Rightarrow> row_lock set \<Rightarrow> 'j phase \<Rightarrow> bool) \<Rightarrow> bool" where
  "orderly (Done a) = (\<lambda>H w Q. Q a H w)"
| "orderly (Step l f) = (\<lambda>H w Q. in_order l H
     \<and> (\<forall>s. (\<lambda>(t, g). lawful (H \<union> set l) w s t \<and> g (held H l (srv_tx t)) (next_phase w (srv_tx t)) Q)
          (map_prod id orderly (f (s\<lparr>srv_tx := tx_of w\<rparr>)))))"

lemma orderly_Step:
  "orderly (Step l f) H w Q \<longleftrightarrow> in_order l H
     \<and> (\<forall>s. case f (s\<lparr>srv_tx := tx_of w\<rparr>) of (t, p) \<Rightarrow>
          lawful (H \<union> set l) w s t \<and> orderly p (held H l (srv_tx t)) (next_phase w (srv_tx t)) Q)"
  by (simp add: case_prod_unfold)

declare orderly.simps(2) [simp del]

lemma orderly_StepD:
  assumes "orderly (Step l f) H w Q" and "f (s\<lparr>srv_tx := tx_of w\<rparr>) = (t, p)"
  shows "lawful (H \<union> set l) w s t" and "orderly p (held H l (srv_tx t)) (next_phase w (srv_tx t)) Q"
  using assms(1) [unfolded orderly_Step, THEN conjunct2, THEN spec, of s] assms(2) by simp_all

lemma orderly_StepI:
  assumes "in_order l H" and "\<And>s t p. f (s\<lparr>srv_tx := tx_of w\<rparr>) = (t, p) \<Longrightarrow> lawful (H \<union> set l) w s t"
    and "\<And>s t p. f (s\<lparr>srv_tx := tx_of w\<rparr>) = (t, p) \<Longrightarrow> orderly p (held H l (srv_tx t)) (next_phase w (srv_tx t)) Q"
  shows "orderly (Step l f) H w Q"
  using assms by (simp add: orderly_Step split: prod.split)

lemma orderly_in_order: "orderly (Step l f) H w Q \<Longrightarrow> in_order l H"
  by (simp add: orderly_Step)

lemma orderly_pbind: "orderly p H w (\<lambda>a H' w'. orderly (k a) H' w' Q) \<Longrightarrow> orderly (pbind p k) H w Q"
proof (induction p arbitrary: H w)
  case (Step l f)
  have "orderly (pbind p k) (held H l (srv_tx t)) (next_phase w (srv_tx t)) Q"
    if fs: "f (s\<lparr>srv_tx := tx_of w\<rparr>) = (t, p)" for s t p
  proof (rule Step(1))
    show "(t, p) \<in> range f" using fs by (metis rangeI)
    show "p \<in> Basic_BNFs.snds (t, p)" by simp
    show "orderly p (held H l (srv_tx t)) (next_phase w (srv_tx t)) (\<lambda>a H' w'. orderly (k a) H' w' Q)"
      by (rule orderly_StepD(2) [OF Step(2) fs])
  qed
  then show ?case unfolding pbind.simps
    by (intro orderly_StepI orderly_in_order [OF Step(2)])
      (auto simp: map_prod_def dest: orderly_StepD(1) [OF Step(2)] split: prod.splits)
qed simp

lemma orderly_mono: "orderly p H w Q \<Longrightarrow> (\<And>a H' w'. Q a H' w' \<Longrightarrow> R a H' w') \<Longrightarrow> orderly p H w R"
proof (induction p arbitrary: H w)
  case (Step l f)
  have "orderly p (held H l (srv_tx t)) (next_phase w (srv_tx t)) R"
    if fs: "f (s\<lparr>srv_tx := tx_of w\<rparr>) = (t, p)" for s t p
  proof (rule Step(1))
    show "(t, p) \<in> range f" using fs by (metis rangeI)
    show "p \<in> Basic_BNFs.snds (t, p)" by simp
    show "orderly p (held H l (srv_tx t)) (next_phase w (srv_tx t)) Q" by (rule orderly_StepD(2) [OF Step(2) fs])
  qed (rule Step(3))
  then show ?case
    by (intro orderly_StepI orderly_in_order [OF Step(2)]) (auto dest: orderly_StepD(1) [OF Step(2)])
qed simp

lemma orderly_atomic:
  assumes "in_order l H" and "\<And>s a t. f (s\<lparr>srv_tx := tx_of w\<rparr>) = (a, t) \<Longrightarrow> lawful (H \<union> set l) w s t"
    and "\<And>s a t. f (s\<lparr>srv_tx := tx_of w\<rparr>) = (a, t) \<Longrightarrow> Q a (held H l (srv_tx t)) (next_phase w (srv_tx t))"
  shows "orderly (atomic l f) H w Q"
  using assms by (simp add: atomic_def orderly_Step split: prod.splits)

lemma orderly_await:
  assumes "orderly m H w (\<lambda>r H' w'. case r of Ok x \<Rightarrow> orderly (k x) H' w' Q | Err e \<Rightarrow> Q (Err e) H' w')"
  shows "orderly (await m k) H w Q"
  unfolding await_def by (rule orderly_pbind, rule orderly_mono [OF assms]) (auto split: result.splits)

lemma orderly_attempt:
  "(\<And>x. r = Ok x \<Longrightarrow> orderly (k x) H w Q) \<Longrightarrow> (\<And>e. Q (Err e) H w) \<Longrightarrow> orderly (attempt r k) H w Q"
  by (cases r) auto

lemma orderly_pmap: "orderly m H w (\<lambda>a. Q (g a)) \<Longrightarrow> orderly (pmap g m) H w Q"
  unfolding pmap_def by (rule orderly_pbind) simp

lemma in_order_Nil [simp]: "in_order [] H"
  by (simp add: in_order_def)

lemma held_tx [simp]: "w \<noteq> None \<Longrightarrow> held H l w = H \<union> set l" "held H l None = {}"
  by (auto simp: held_def)

lemma in_order_held: "x \<in> H \<Longrightarrow> in_order [x] H"
  by (simp add: in_order_def)

text \<open>Statements run inside the transaction and keep it open.\<close>

lemma next_fault_same: "next_fault s = (f, t) \<Longrightarrow> same_tables s t"
  by (auto simp: next_fault_def same_tables_def split: list.splits)

lemma perform_inside:
  assumes "srv_tx s = Some w" and "proper A st" and "perform st s = (r, t)"
  shows "srv_db t = srv_db s \<and> seq_le (srv_seqs s) (srv_seqs t) \<and> (\<exists>v. srv_tx t = Some (v \<circ> w) \<and> sound_write A (w (srv_db s)) v)"
proof -
  obtain a v q where st: "st (view s) (srv_seqs s) = (a, v, q)" by (metis prod.exhaust)
  then have "sound_write A (view s) v \<and> seq_le (srv_seqs s) q" using assms(2) unfolding proper_def by (auto dest!: spec split: prod.splits)
  with st assms(1,3) show ?thesis by (auto simp: perform_def view_def)
qed

lemma execute_inside:
  assumes "execute st s = (r, t)" and "srv_tx s = Some w" and "proper A st"
  shows "srv_db t = srv_db s \<and> seq_le (srv_seqs s) (srv_seqs t) \<and> (\<exists>v. srv_tx t = Some (v \<circ> w) \<and> sound_write A (w (srv_db s)) v)"
proof -
  obtain f u where u: "next_fault s = (f, u)" by force
  note same = next_fault_same [OF u, unfolded same_tables_def]
  obtain r' t' where run: "perform st u = (r', t')" by force
  from perform_inside [OF _ assms(3) this] same assms(2)
  have "srv_db t' = srv_db s \<and> seq_le (srv_seqs s) (srv_seqs t') \<and> (\<exists>v. srv_tx t' = Some (v \<circ> w) \<and> sound_write A (w (srv_db s)) v)" by simp
  moreover have "t = t' \<or> t = u" using assms(1) u run by (cases f) (auto simp: execute_def)
  ultimately show ?thesis using same assms(2) by (auto intro: exI [of _ id])
qed

lemma orderly_query:
  assumes "tx_of w \<noteq> None" and "in_order l H" and "proper (H \<union> set l) st"
    and "\<And>r w'. tx_of w' \<noteq> None \<Longrightarrow> Q r (H \<union> set l) w'"
  shows "orderly (query l st) H w Q"
  unfolding query_def
proof (rule orderly_pmap, rule orderly_atomic [OF assms(2)])
  obtain v where w: "w = Inside v" using assms(1) unfolding tx_of_inside by blast
  fix s a t assume "execute st (s\<lparr>srv_tx := tx_of w\<rparr>) = (a, t)"
  from execute_inside [OF this _ assms(3)] w
  have "srv_db t = srv_db s \<and> seq_le (srv_seqs s) (srv_seqs t) \<and> (\<exists>v'. srv_tx t = Some (v' \<circ> v) \<and> sound_write (H \<union> set l) (v (srv_db s)) v')" by simp
  then show "lawful (H \<union> set l) w s t" and "Q (map_err StorageError_from_sqlx a) (held H l (srv_tx t)) (next_phase w (srv_tx t))"
    unfolding w using assms(4) by auto
qed

text \<open>
  A piece of a handler inside the transaction: it starts with the locks \<open>H\<close>, and with a
  value \<open>x\<close> it has locks \<open>K\<close> such that \<open>R x K\<close>.
\<close>

definition takes ::
    "row_lock set \<Rightarrow> (row_lock list, 'j server, ('a, 'e) result) prog \<Rightarrow> ('a \<Rightarrow> row_lock set \<Rightarrow> bool) \<Rightarrow> bool" where
  "takes H m R \<longleftrightarrow>
     (\<forall>w. tx_of w \<noteq> None \<longrightarrow> orderly m H w (\<lambda>r K w'. tx_of w' \<noteq> None \<and> (\<forall>x. r = Ok x \<longrightarrow> R x K)))"

lemma takes_query: "in_order l H \<Longrightarrow> proper (H \<union> set l) st \<Longrightarrow> takes H (query l st) (\<lambda>_ K. K = H \<union> set l)"
  unfolding takes_def by (intro allI impI orderly_query) auto

lemma takes_await:
  assumes "takes H m R" and "\<And>x K. R x K \<Longrightarrow> takes K (k x) S"
  shows "takes H (await m k) S"
  unfolding takes_def
proof (intro allI impI orderly_await)
  fix w :: "'a phase" assume "tx_of w \<noteq> None"
  with assms(1) have "orderly m H w (\<lambda>r K w'. tx_of w' \<noteq> None \<and> (\<forall>x. r = Ok x \<longrightarrow> R x K))" by (simp add: takes_def)
  then show "orderly m H w (\<lambda>r H' w'. case r of
      Ok x \<Rightarrow> orderly (k x) H' w' (\<lambda>r K w'. tx_of w' \<noteq> None \<and> (\<forall>x. r = Ok x \<longrightarrow> S x K))
    | Err e \<Rightarrow> tx_of w' \<noteq> None \<and> (\<forall>x. Err e = Ok x \<longrightarrow> S x H'))"
    by (rule orderly_mono) (use assms(2) in \<open>auto simp: takes_def split: result.splits\<close>)
qed

lemma takes_weaken: "takes H m R \<Longrightarrow> (\<And>x K. R x K \<Longrightarrow> S x K) \<Longrightarrow> takes H m S"
  unfolding takes_def by (blast intro: orderly_mono)

lemma takes_Done: "(\<And>x. r = Ok x \<Longrightarrow> R x H) \<Longrightarrow> takes H (Done r) R"
  by (simp add: takes_def)

lemma takes_attempt: "(\<And>x. r = Ok x \<Longrightarrow> takes H (k x) R) \<Longrightarrow> takes H (attempt r k) R"
  by (cases r) (auto intro: takes_Done)

lemma takes_map_err: "takes H m R \<Longrightarrow> takes H (pmap (map_err g) m) R"
  unfolding takes_def by (auto intro!: orderly_pmap elim!: orderly_mono simp: result_simps)

lemma takes_svc: "takes H m R \<Longrightarrow> takes H (svc env m) R"
  unfolding svc_def by (rule takes_map_err)

lemma takes_local:
  assumes "\<And>s a t. f s = (a, t) \<Longrightarrow> same_tables s t"
  shows "takes H (atomic [] f) (\<lambda>_ K. K = H)"
  unfolding takes_def
  by (intro allI impI orderly_atomic) (auto simp: same_tables_def intro: lawful_same dest: assms)

lemmas takes_rules = takes_await takes_attempt takes_Done takes_svc takes_query

subsubsection \<open>Storage methods\<close>

lemma takes_fetch_account: "in_order l H \<Longrightarrow> takes H (fetch_account l i) (\<lambda>_ K. K = H \<union> set l)"
  unfolding fetch_account_def by (rule takes_await [OF takes_query]) (auto intro!: takes_rules split: option.split)

lemma takes_reads:
  "takes H (get_transaction i) (\<lambda>_ K. K = H)" "takes H (find_transaction_by_key key) (\<lambda>_ K. K = H)"
  "takes H (get_entries_for_transaction i) (\<lambda>_ K. K = H)" "takes H (get_entries_for_account a) (\<lambda>_ K. K = H)"
  "takes H (get_account a) (\<lambda>_ K. K = H)"
  unfolding get_transaction_def find_transaction_by_key_def get_entries_for_transaction_def
    get_entries_for_account_def get_account_def fetch_account_def
  by (rule takes_await [OF takes_query], simp, auto intro!: takes_rules split: option.split)+

lemma takes_update_account_balance:
  assumes "LockAccount (account_id_value i) \<in> H"
  shows "takes H (update_account_balance i v dp dq) (\<lambda>_ K. K = H)"
  unfolding update_account_balance_def version_mismatch_def
  by (rule takes_await [OF takes_query [OF in_order_held [OF assms]]])
    (use assms in \<open>auto intro!: takes_Done takes_await [OF takes_query] simp: insert_absorb split: option.split\<close>)

lemma takes_create_entry: "takes H (create_entry t a ty am st now) (\<lambda>_ K. K = H)"
  unfolding create_entry_def by (rule takes_await [OF takes_query]) (auto intro!: takes_Done)

definition only_accounts :: "row_lock set \<Rightarrow> bool" where
  "only_accounts H \<longleftrightarrow> H \<subseteq> range LockAccount"

lemma only_accounts_before:
  assumes "only_accounts H"
  shows "in_order [LockTransaction i] H" "in_order [LockKey k] H"
    "in_order [LockEntriesOf i] (H \<union> {LockTransaction i})"
  using assms by (auto simp: only_accounts_def in_order_def less_row_lock_def)

lemma takes_create_transaction:
  assumes "only_accounts H"
  shows "takes H (create_transaction key st metadata now pa) (\<lambda>_ K. H \<subseteq> K)"
  unfolding create_transaction_def
  by (rule takes_await [OF takes_query])
    (auto intro!: takes_Done only_accounts_before [OF assms] sound_transaction
      simp: insert_transaction_check_def check_def keys_of_def result_simps Let_def split: result.split if_splits)

lemma takes_settle_statements:
  assumes "only_accounts H"
  shows "takes H (update_transaction_status i st pa) (\<lambda>_ K. K = H \<union> {LockTransaction (transaction_id_value i)})"
    and "takes (H \<union> {LockTransaction (transaction_id_value i)}) (update_entry_status_by_transaction i est) (\<lambda>_ K. H \<subseteq> K)"
proof -
  show "takes H (update_transaction_status i st pa) (\<lambda>_ K. K = H \<union> {LockTransaction (transaction_id_value i)})"
    unfolding update_transaction_status_def
    by (rule takes_await [OF takes_query [OF only_accounts_before(1) [OF assms]]])
      (auto intro!: takes_Done sound_statuses simp: result_simps Let_def)
  show "takes (H \<union> {LockTransaction (transaction_id_value i)}) (update_entry_status_by_transaction i est) (\<lambda>_ K. H \<subseteq> K)"
    unfolding update_entry_status_by_transaction_def
    by (rule takes_weaken [OF takes_query [OF only_accounts_before(3) [OF assms]]]) auto
qed

subsubsection \<open>Handlers\<close>

abbreviation lock_of :: "AccountId \<Rightarrow> row_lock" where
  "lock_of i \<equiv> LockAccount (account_id_value i)"

lemma account_lock_less [simp]: "LockAccount i < LockAccount j \<longleftrightarrow> sint i < sint j"
  by (simp add: less_row_lock_def)

lemma lock_order_ascending: "sorted_wrt (\<lambda>i j. lock_of i < lock_of j) (lock_order ids)"
proof -
  have "inj (\<lambda>i. sint (account_id_value i))" by (auto intro!: injI AccountId.expand)
  from strict_sorted_remdups_adj_key [OF this, of ids] show ?thesis by (simp add: lock_order_def sorted_wrt_map)
qed

lemma takes_lock_accounts:
  assumes "sorted_wrt (\<lambda>i j. lock_of i < lock_of j) ids" and "\<And>i x. i \<in> set ids \<Longrightarrow> x \<in> H \<Longrightarrow> x < lock_of i"
  shows "takes H (lock_accounts env ids acc) (\<lambda>_ K. K = H \<union> lock_of ` set ids)"
  using assms
proof (induction ids arbitrary: H acc)
  case (Cons i ids)
  have "in_order [lock_of i] H" using Cons.prems(2) by (simp add: in_order_def)
  from takes_svc [OF takes_fetch_account [OF this]] show ?case unfolding lock_accounts.simps get_account_for_update_def
  proof (rule takes_await, intro takes_attempt)
    fix x K acct assume K: "K = H \<union> set [lock_of i]"
    have "takes K (lock_accounts env ids (acc @ [acct])) (\<lambda>_ K'. K' = K \<union> lock_of ` set ids)"
      using Cons.prems by (intro Cons.IH) (auto simp: K)
    then show "takes K (lock_accounts env ids (acc @ [acct])) (\<lambda>_ K'. K' = H \<union> lock_of ` set (i # ids))"
      by (rule takes_weaken) (auto simp: K)
  qed
qed (auto intro: takes_Done)

lemma takes_lock_order: "takes {} (lock_accounts env (lock_order ids) []) (\<lambda>_ K. K = lock_of ` set ids)"
  using takes_lock_accounts [OF lock_order_ascending, of ids "{}" env "[]"] by simp

lemma takes_apply_balance_updates:
  "lock_of ` fst ` set us \<subseteq> H \<Longrightarrow> takes H (apply_balance_updates env accts us) (\<lambda>_ K. K = H)"
proof (induction us)
  case (Cons u us)
  obtain i dp dq where u: "u = (i, dp, dq)" by (cases u)
  show ?case unfolding u apply_balance_updates.simps
    by (intro takes_attempt takes_await [OF takes_svc [OF takes_update_account_balance]])
      (use Cons u in auto)
qed (auto intro: takes_Done)

lemma takes_check_available: "takes H (check_available accts legs) (\<lambda>_ K. K = H)"
proof (induction legs)
  case (Cons leg legs)
  have local: "takes H (read_cache i) (\<lambda>_ K. K = H)" "takes H (count_event n l) (\<lambda>_ K. K = H)" for i n l
    unfolding read_cache_def count_event_def increment_def by (rule takes_local; auto simp: same_tables_def)+
  show ?case unfolding check_available.simps
    by (rule takes_attempt, simp add: Cons.IH, rule impI, rule takes_await [OF local(1)])
      (auto intro!: takes_attempt takes_Done takes_await [OF local(2)] simp: Cons.IH)
qed (auto intro: takes_Done)

lemma fst_add_pending: "fst ` set (add_pending us i d) = insert i (fst ` set us)"
  by (induction us i d rule: add_pending.induct) auto

lemma takes_create_entries:
  "takes H (create_entries env t accts now legs es us)
     (\<lambda>(es', us') K. K = H \<and> fst ` set us' = fst ` set us \<union> l_account_id ` set legs)"
proof (induction legs arbitrary: es us)
  case (Cons leg legs)
  show ?case unfolding create_entries.simps Let_def
    by (intro takes_attempt takes_await [OF takes_svc [OF takes_create_entry]], simp, rule takes_weaken [OF Cons])
      (simp add: fst_add_pending split: prod.splits)
qed (auto intro: takes_Done)

lemma fst_update: 
  "fst ` set (move_to_posted us i d) = insert i (fst ` set us)"
  "fst ` set (remove_pending us i d) = insert i (fst ` set us)"
  by (induction us i d rule: move_to_posted.induct) auto

lemma fst_capture_updates:
  "capture_updates accts es us = Ok us' \<Longrightarrow> fst ` set us' = fst ` set us \<union> e_account_id ` set es"
proof (induction es arbitrary: us)
  case (Cons e es)
  then obtain d where "capture_updates accts es (move_to_posted us (e_account_id e) d) = Ok us'"
    by (auto simp: result_simps Let_def)
  from Cons.IH [OF this] show ?case by (simp add: fst_update)
qed simp

lemma fst_void_updates:
  "void_updates accts es us = Ok us' \<Longrightarrow> fst ` set us' = fst ` set us \<union> e_account_id ` set es"
proof (induction es arbitrary: us)
  case (Cons e es)
  then obtain d where "void_updates accts es (remove_pending us (e_account_id e) d) = Ok us'"
    by (auto simp: result_simps Let_def)
  from Cons.IH [OF this] show ?case by (simp add: fst_update)
qed simp

text \<open>Whole handlers, from no locks and no transaction.\<close>

abbreviation ordered :: "(row_lock list, 'j server, 'a) prog \<Rightarrow> row_lock set \<Rightarrow> 'j phase \<Rightarrow> bool" where
  "ordered m H w \<equiv> orderly m H w (\<lambda>_ _ _. True)"

text \<open>A handler that also gives all its locks back.\<close>

abbreviation tidy :: "(row_lock list, 'j server, 'a) prog \<Rightarrow> row_lock set \<Rightarrow> 'j phase \<Rightarrow> bool" where
  "tidy m H w \<equiv> orderly m H w (\<lambda>_ K _. K = {})"

lemma lawful_drop: "lawful A w s (s\<lparr>srv_tx := None\<rparr>)"
  by (cases w) auto

lemma tidy_drop_tx: "ordered m H w \<Longrightarrow> tidy (drop_tx m) H w"
  unfolding drop_tx_def by (rule orderly_pbind) (erule orderly_mono, rule orderly_atomic, auto intro: lawful_drop)

lemma begin_tx_phase:
  assumes "begin_tx (s\<lparr>srv_tx := None\<rparr>) = (a, t)"
  shows "lawful A Before s t" and "is_ok a \<Longrightarrow> srv_tx t \<noteq> None"
proof -
  obtain f u where u: "next_fault (s\<lparr>srv_tx := None\<rparr>) = (f, u)" by force
  from next_fault_same [OF u] assms u show "lawful A Before s t" "is_ok a \<Longrightarrow> srv_tx t \<noteq> None"
    by (auto simp: begin_tx_def same_tables_def split: fault.splits)
qed

lemma ordered_begin:
  assumes "\<And>x w. tx_of w \<noteq> None \<Longrightarrow> ordered (k x) {} w"
  shows "ordered (await (svc env begin_transaction) k) {} Before"
  unfolding svc_def begin_transaction_def
proof (rule orderly_await, intro orderly_pmap orderly_atomic, simp, unfold tx_of.simps)
  fix s :: "'a server" and a t assume run: "begin_tx (s\<lparr>srv_tx := None\<rparr>) = (a, t)"
  show "lawful ({} \<union> set []) Before s t" by (rule begin_tx_phase [OF run])
  show "case map_err (\<lambda>e. service_error (ServiceError_from_StorageError (env_sqlx_display env) e)) (map_err StorageError_from_sqlx a) of
      Ok x \<Rightarrow> ordered (k x) (held {} [] (srv_tx t)) (next_phase Before (srv_tx t)) | Err e \<Rightarrow> True"
    using begin_tx_phase(2) [OF run] by (cases a) (auto intro: assms)
qed

lemma ordered_in_tx:
  assumes "takes H m R" and "tx_of w \<noteq> None" and "\<And>x K w. R x K \<Longrightarrow> tx_of w \<noteq> None \<Longrightarrow> ordered (k x) K w"
  shows "ordered (await m k) H w"
proof (rule orderly_await)
  have "orderly m H w (\<lambda>r K w'. tx_of w' \<noteq> None \<and> (\<forall>x. r = Ok x \<longrightarrow> R x K))" using assms(1,2) by (simp add: takes_def)
  then show "orderly m H w (\<lambda>r H' w'. case r of Ok x \<Rightarrow> ordered (k x) H' w' | Err e \<Rightarrow> True)"
    by (rule orderly_mono) (use assms(3) in \<open>auto split: result.splits\<close>)
qed

lemma commit_tx_phase:
  assumes "commit_tx (s\<lparr>srv_tx := Some w\<rparr>) = (a, t)"
  shows "lawful A (Inside w) s t" and "srv_tx t = None"
proof -
  obtain f u where u: "next_fault (s\<lparr>srv_tx := Some w\<rparr>) = (f, u)" by force
  from next_fault_same [OF u] assms u show "lawful A (Inside w) s t" "srv_tx t = None"
    by (auto simp: commit_tx_def same_tables_def view_def split: fault.splits)
qed

lemma ordered_commit:
  assumes "tx_of w \<noteq> None" and "\<And>x. ordered (k x) {} After"
  shows "ordered (await (commit env) k) H w"
proof -
  from assms(1) obtain v where w: "w = Inside v" unfolding tx_of_inside by blast
  show ?thesis unfolding commit_def w
  proof (rule orderly_await, intro orderly_pmap orderly_atomic, simp, unfold tx_of.simps)
    fix s :: "'a server" and a t assume run: "commit_tx (s\<lparr>srv_tx := Some v\<rparr>) = (a, t)"
    show "lawful (H \<union> set []) (Inside v) s t" by (rule commit_tx_phase [OF run])
    show "case map_err (\<lambda>e. service_error (Internal (env_sqlx_display env e))) a of
        Ok x \<Rightarrow> ordered (k x) (held H [] (srv_tx t)) (next_phase (Inside v) (srv_tx t)) | Err e \<Rightarrow> True"
      using assms(2) commit_tx_phase(2) [OF run] by (simp split: result.split)
  qed
qed

definition quiet :: "(row_lock list, 'j server, 'a) prog \<Rightarrow> bool" where
  "quiet m \<longleftrightarrow> (\<forall>w. tx_of w = None \<longrightarrow> orderly m {} w (\<lambda>_ H w'. H = {} \<and> w' = w))"

lemma quiet_local:
  assumes "\<And>s a t. f s = (a, t) \<Longrightarrow> same_tables s t"
  shows "quiet (atomic [] f)"
  unfolding quiet_def
proof (intro allI impI orderly_atomic)
  fix w :: "'a phase" and s a t assume w: "tx_of w = None" and "f (s\<lparr>srv_tx := tx_of w\<rparr>) = (a, t)"
  then have same: "same_tables (s\<lparr>srv_tx := tx_of w\<rparr>) t" using assms by blast
  then show "lawful ({} \<union> set []) w s t" by (rule lawful_same)
  from same w have "srv_tx t = tx_of w" by (simp add: same_tables_def)
  with w show "held {} [] (srv_tx t) = {} \<and> next_phase w (srv_tx t) = w" by (metis held_tx(2) next_phase_simps(1))
qed simp

lemma quietD: "quiet m \<Longrightarrow> tx_of w = None \<Longrightarrow> orderly m {} w (\<lambda>_ H w'. H = {} \<and> w' = w)"
  by (simp add: quiet_def)

lemma ordered_after:
  assumes "quiet m" and "tx_of w = None" and "\<And>x. ordered (k x) {} w"
  shows "ordered (await m k) {} w"
  by (rule orderly_await, rule orderly_mono [OF quietD [OF assms(1,2)]]) (use assms(3) in \<open>auto split: result.split\<close>)

lemma quiet_await:
  assumes "quiet m" and "\<And>x. quiet (k x)"
  shows "quiet (await m k)"
  unfolding quiet_def
proof (intro allI impI orderly_await)
  fix w :: "'a phase" assume w: "tx_of w = None"
  show "orderly m {} w (\<lambda>r H' w'. case r of Ok x \<Rightarrow> orderly (k x) H' w' (\<lambda>_ H w'. H = {} \<and> w' = w) | Err e \<Rightarrow> H' = {} \<and> w' = w)"
    by (rule orderly_mono [OF quietD [OF assms(1) w]]) (use quietD [OF assms(2) w] in \<open>auto split: result.split\<close>)
qed

lemma quiet_write_cache: "quiet (write_cache f)"
  unfolding write_cache_def by (rule quiet_local) (auto simp: same_tables_def)

lemma quiet_memory: "quiet (count_event n l)" "quiet (read_cache i)"
  unfolding count_event_def read_cache_def by (rule quiet_local; auto simp: increment_def same_tables_def)+

lemma quiet_update_cache: "quiet (update_cache us)"
proof (induction us rule: update_cache.induct)
  case (2 i dp dq us)
  then show ?case unfolding update_cache.simps by (intro quiet_await quiet_write_cache)
qed (simp add: quiet_def)

lemmas ordered_rules = orderly_attempt ordered_begin ordered_commit ordered_after [OF quiet_memory(1)]
  ordered_after [OF quiet_memory(2)] ordered_after [OF quiet_write_cache] ordered_after [OF quiet_update_cache]

lemma ordered_write_settled:
  assumes "tx_of w \<noteq> None" and "lock_of ` fst ` set us \<subseteq> H" and "only_accounts H" and "\<And>x. ordered (k x) {} After"
  shows "ordered (await (svc env (update_transaction_status i st pa)) (\<lambda>_.
    await (svc env (update_entry_status_by_transaction i est)) (\<lambda>_.
    await (apply_balance_updates env accts us) (\<lambda>_. await (commit env) k)))) H w"
proof (rule ordered_in_tx [OF takes_svc [OF takes_settle_statements(1) [OF assms(3)]] assms(1)])
  fix w' :: "'a phase" and K assume K: "K = H \<union> {LockTransaction (transaction_id_value i)}" and w': "tx_of w' \<noteq> None"
  show "ordered (await (svc env (update_entry_status_by_transaction i est)) (\<lambda>_.
      await (apply_balance_updates env accts us) (\<lambda>_. await (commit env) k))) K w'" unfolding K
    by (rule ordered_in_tx [OF takes_svc [OF takes_settle_statements(2) [OF assms(3)]] w'],
        rule ordered_in_tx [OF takes_apply_balance_updates], use assms(2) in blast, assumption,
        erule ordered_commit, rule assms(4))
qed

lemma ordered_settle:
  assumes "\<And>accts es us. upd accts es [] = Ok us \<Longrightarrow> fst ` set us = e_account_id ` set es" and "tx_of w \<noteq> None"
  shows "ordered (settle upd st est pa p label env i transaction) {} w"
  unfolding settle_def
proof (rule ordered_in_tx [OF takes_svc [OF takes_reads(3)] assms(2)])
  fix es and w' :: "'a phase" and K :: "row_lock set" assume K: "K = {}" and w': "tx_of w' \<noteq> None"
  show "ordered (await (lock_accounts env (lock_order (map e_account_id es)) []) (\<lambda>accts.
     attempt (upd accts es []) (\<lambda>us.
     await (svc env (update_transaction_status i st pa)) (\<lambda>_.
     await (svc env (update_entry_status_by_transaction i est)) (\<lambda>_.
     await (apply_balance_updates env accts us) (\<lambda>_.
     await (commit env) (\<lambda>_.
     await (update_cache us) (\<lambda>_.
     await (count_event ''fides_transactions_total'' label) (\<lambda>_.
     attempt (map_err (\<lambda>e. service_error (ServiceError_from_TransactionError e))
       (Transaction_new i (t_idempotency_key transaction) st (t_metadata transaction)
         (t_created_at transaction) p)) (\<lambda>updated.
     Done (Ok (transaction_to_proto updated)))))))))))) K w'" unfolding K
    by (rule ordered_in_tx [OF takes_lock_order w'], rule orderly_attempt, rule ordered_write_settled)
      (auto intro!: ordered_rules simp: assms(1) only_accounts_def)
qed

lemma ordered_authorize_new:
  assumes "tx_of w \<noteq> None"
  shows "ordered (authorize_new env key metadata legs now) {} w"
  unfolding authorize_new_def
proof (rule ordered_in_tx [OF takes_lock_order assms], rule ordered_in_tx [OF takes_check_available], assumption, hypsubst,
    rule ordered_in_tx [OF takes_svc [OF takes_create_transaction]], goal_cases)
  case (3 accts K w1 u w2 i K2 w3)
  show ?case
    by (rule ordered_in_tx [OF takes_create_entries], rule 3, clarify, rule ordered_in_tx [OF takes_apply_balance_updates])
      (use 3 in \<open>auto intro!: ordered_rules\<close>)
qed (auto simp: only_accounts_def)

lemma takes_create_account: "takes H (create_account ty code sc now) (\<lambda>_ K. K = H)"
  unfolding create_account_def by (rule takes_await [OF takes_query]) (auto intro!: takes_Done)

lemma tidy_create_account: "tidy (rpc_create_account env req) {} Before"
  unfolding rpc_create_account_def Let_def
  by (rule tidy_drop_tx) (auto intro!: ordered_rules ordered_in_tx [OF takes_svc [OF takes_create_account]])

lemma tidy_get_account: "tidy (rpc_get_account env i) {} Before"
  unfolding rpc_get_account_def
  by (rule tidy_drop_tx) (auto intro!: ordered_rules ordered_in_tx [OF takes_svc [OF takes_reads(5)]])

lemma tidy_get_balance: "tidy (rpc_get_balance env i) {} Before"
  unfolding rpc_get_balance_def
  by (intro orderly_attempt orderly_await orderly_mono [OF quietD [OF quiet_memory(2)]])
    (auto intro!: orderly_attempt split: result.split)

lemma tidy_get_entries: "tidy (rpc_get_entries env i) {} Before"
  unfolding rpc_get_entries_def
  by (rule tidy_drop_tx) (auto intro!: ordered_rules ordered_in_tx [OF takes_svc [OF takes_reads(5)]]
      ordered_in_tx [OF takes_svc [OF takes_reads(4)]])

lemma tidy_authorize: "tidy (rpc_authorize env req) {} Before"
  unfolding rpc_authorize_def Let_def
  by (rule tidy_drop_tx) (auto intro!: ordered_rules ordered_in_tx [OF takes_svc [OF takes_reads(2)]]
      ordered_in_tx [OF takes_svc [OF takes_reads(3)]] ordered_authorize_new split: option.split)

lemmas fst_captured = fst_capture_updates [where us = "[]", simplified]

lemmas fst_voided = fst_void_updates [where us = "[]", simplified]

lemma tidy_capture: "tidy (rpc_capture env i) {} Before"
  unfolding rpc_capture_def Let_def capture_pending_settle
  by (rule tidy_drop_tx) (auto intro!: ordered_rules ordered_in_tx [OF takes_svc [OF takes_reads(1)]]
      ordered_settle [OF fst_captured])

lemma tidy_void: "tidy (rpc_void env i) {} Before"
  unfolding rpc_void_def void_pending_settle
  by (rule tidy_drop_tx) (auto intro!: ordered_rules ordered_in_tx [OF takes_svc [OF takes_reads(1)]]
      ordered_settle [OF fst_voided])

lemma tidy_respond: "tidy m {} Before \<Longrightarrow> tidy (respond f m) {} Before"
  unfolding respond_def by (rule orderly_await, erule orderly_mono) (simp split: result.split)

lemma tidy_dispatch: "tidy (dispatch env req) {} Before"
  by (cases req) (simp_all add: tidy_respond tidy_create_account tidy_get_account tidy_get_balance tidy_get_entries
      tidy_authorize tidy_capture tidy_void)

subsection \<open>No deadlock\<close>

text \<open>
  The rest of a session's program is orderly in the phase of its transaction, its writes are
  confined to the locks it holds, and no two sessions hold the same lock.
\<close>

definition session_ok :: "'j session \<Rightarrow> 'j phase \<Rightarrow> bool" where
  "session_ok x p \<longleftrightarrow>
     tx_of p = ses_tx x \<and> tidy (ses_prog x) (set (ses_locks x)) p
     \<and> (\<forall>w. ses_tx x = Some w \<longrightarrow> confined (set (ses_locks x)) w)"

definition tasks_ok :: "'j session list \<Rightarrow> bool" where
  "tasks_ok ss \<longleftrightarrow>
     (\<forall>x \<in> set ss. \<exists>p. session_ok x p)
     \<and> (\<forall>i < length ss. \<forall>j < length ss. i \<noteq> j \<longrightarrow> set (ses_locks (ss ! i)) \<inter> set (ses_locks (ss ! j)) = {})"

lemma accepted_session: "session_ok \<lparr> ses_prog = dispatch env req, ses_tx = None, ses_locks = [] \<rparr> Before"
  by (simp add: session_ok_def tidy_dispatch)

lemma accepted_ok: "tasks_ok (accepted reqs)"
  by (auto simp: tasks_ok_def accepted_def intro!: exI [of _ Before] accepted_session split: prod.splits)

lemma advance_fields:
  assumes "advance s x = (t, y)" and "ses_prog x = Step l f"
  obtains u where "f (s\<lparr>srv_tx := ses_tx x\<rparr>) = (u, ses_prog y)" and "ses_tx y = srv_tx u"
    and "set (ses_locks y) = held (set (ses_locks x)) l (srv_tx u)" and "t = u\<lparr>srv_tx := None\<rparr>"
  using assms by (auto simp: advance_def held_def Un_commute split: prod.splits)

lemma lawful_confined:
  assumes "lawful A p s t" and "\<And>w. tx_of p = Some w \<Longrightarrow> confined A w" and "srv_tx t = Some w'"
  shows "confined A w'"
  using assms by (cases p) (auto simp: sound_write_def intro: confined_comp)

lemma advance_ok:
  assumes "session_ok x p" and "advance s x = (t, y)" and "\<not> finished (ses_prog x)"
  shows "session_ok y (next_phase p (ses_tx y))"
    and "lawful (set (ses_locks x) \<union> set (wants (ses_prog x))) p s (t\<lparr>srv_tx := ses_tx y\<rparr>)"
    and "set (ses_locks y) = held (set (ses_locks x)) (wants (ses_prog x)) (ses_tx y)"
proof -
  from assms(3) obtain l f where prog: "ses_prog x = Step l f" by (cases "ses_prog x") auto
  from assms(2) prog obtain u where u: "f (s\<lparr>srv_tx := ses_tx x\<rparr>) = (u, ses_prog y)" "ses_tx y = srv_tx u"
    and locks: "set (ses_locks y) = held (set (ses_locks x)) l (srv_tx u)" and t: "t = u\<lparr>srv_tx := None\<rparr>"
    by (rule advance_fields)
  have x: "tx_of p = ses_tx x" "tidy (Step l f) (set (ses_locks x)) p" "\<And>w. ses_tx x = Some w \<Longrightarrow> confined (set (ses_locks x)) w"
    using assms(1) prog by (simp_all add: session_ok_def)
  note step = orderly_StepD [OF x(2) u(1) [folded x(1)]]
  have same: "t\<lparr>srv_tx := ses_tx y\<rparr> = u" by (simp add: t u(2))
  with step(1) prog show "lawful (set (ses_locks x) \<union> set (wants (ses_prog x))) p s (t\<lparr>srv_tx := ses_tx y\<rparr>)" by simp
  have "confined (set (ses_locks x) \<union> set l) w" if "ses_tx y = Some w" for w
    by (rule lawful_confined [OF step(1)]) (use that u(2) x in \<open>auto intro: confined_mono\<close>)
  with step(2) locks show "session_ok y (next_phase p (ses_tx y))" by (simp add: session_ok_def u(2) held_def)
  show "set (ses_locks y) = held (set (ses_locks x)) (wants (ses_prog x)) (ses_tx y)" using prog by (simp add: locks u(2))
qed

lemma interleaves_ok:
  assumes "interleaves (s, ss) (t, ts)" and "tasks_ok ss"
  shows "tasks_ok ts"
  using assms(1)
proof (rule interleavesE)
  fix k t' x assume step: "(t, ts) = (t', ss[k := x])" "may_step ss k" "advance s (ss ! k) = (t', x)"
  then have k: "k < length ss" and run: "\<not> finished (ses_prog (ss ! k))" by (simp_all add: may_step_def)
  then obtain p where p: "session_ok (ss ! k) p" using assms(2) unfolding tasks_ok_def by (metis nth_mem)
  note new = advance_ok [OF p step(3) run]
  have "set (ses_locks x) \<inter> set (ses_locks (ss ! j)) = {}" if "j < length ss" "j \<noteq> k" for j
  proof -
    have "set (wants (ses_prog (ss ! k))) \<inter> set (ses_locks (ss ! j)) = {}" using step(2) that by (simp add: may_step_def)
    moreover have "set (ses_locks (ss ! k)) \<inter> set (ses_locks (ss ! j)) = {}"
      using assms(2) that k unfolding tasks_ok_def by metis
    ultimately show ?thesis using new(3) by (auto simp: held_def)
  qed
  then show "tasks_ok ts"
    using assms(2) new(1) step(1) k
    by (auto simp: tasks_ok_def nth_list_update Int_commute dest!: set_update_subset_insert [THEN subsetD])
qed

lemma reached_ok: "interleaves\<^sup>*\<^sup>* (s, ss) (t, ts) \<Longrightarrow> tasks_ok ss \<Longrightarrow> tasks_ok ts"
  by (induction "(t, ts)" arbitrary: t ts rule: rtranclp_induct) (auto intro: interleaves_ok)

text \<open>The highest lock that is waited for belongs to a task that waits for a higher one.\<close>

lemma no_deadlock:
  assumes ok: "tasks_ok ss" and k0: "k0 < length ss" "\<not> finished (ses_prog (ss ! k0))"
  shows "\<exists>k. may_step ss k"
proof (rule ccontr)
  assume "\<nexists>k. may_step ss k"
  then have blocked: "\<exists>j < length ss. j \<noteq> k \<and> (\<exists>x. x \<in> set (wants (ses_prog (ss ! k))) \<and> x \<in> set (ses_locks (ss ! j)))"
    if "k < length ss" "\<not> finished (ses_prog (ss ! k))" for k
    using that unfolding may_step_def by blast
  define W where "W = {x. \<exists>k < length ss. \<exists>j < length ss. j \<noteq> k \<and> x \<in> set (wants (ses_prog (ss ! k))) \<and> x \<in> set (ses_locks (ss ! j))}"
  have "W \<subseteq> (\<Union>j \<in> {..<length ss}. set (ses_locks (ss ! j)))" unfolding W_def by blast
  then have fin: "finite W" by (rule finite_subset) simp
  have "W \<noteq> {}" using blocked [OF k0] k0(1) unfolding W_def by blast
  then obtain k j where j: "j < length ss" "Max W \<in> set (ses_locks (ss ! j))" using Max_in [OF fin] unfolding W_def by blast
  obtain p where tidy: "tidy (ses_prog (ss ! j)) (set (ses_locks (ss ! j))) p"
    using ok j(1) unfolding tasks_ok_def session_ok_def by (metis nth_mem)
  then have run: "\<not> finished (ses_prog (ss ! j))" using j(2) by (cases "ses_prog (ss ! j)") auto
  from blocked [OF j(1) this] obtain i x where i: "i < length ss" "i \<noteq> j"
    and x: "x \<in> set (wants (ses_prog (ss ! j)))" "x \<in> set (ses_locks (ss ! i))" by blast
  have "x \<notin> set (ses_locks (ss ! j))" using ok i j(1) x(2) unfolding tasks_ok_def by blast
  moreover have "in_order (wants (ses_prog (ss ! j))) (set (ses_locks (ss ! j)))"
    using tidy run by (cases "ses_prog (ss ! j)") (auto dest: orderly_in_order)
  ultimately have "Max W < x" using x(1) j(2) unfolding in_order_def by blast
  moreover have "x \<in> W" unfolding W_def using i j(1) x by blast
  ultimately show False using Max_ge [OF fin] by (metis leD)
qed

end
