(* ===== verification/Example.thy ===== *)
theory Example
  imports Server
begin

section \<open>A run of the server\<close>

text \<open>
  A small concrete history, evaluated in the logic: two accounts, a deposit that is
  captured, a withdrawal that is voided. Its states are the concrete inputs of the
  witnesses.
\<close>

definition demo_env :: "unit env" where
  "demo_env =
     \<lparr> env_now = 1000, env_json_from_str = (\<lambda>_. Ok ()), env_json_empty = (),
       env_sqlx_display = (\<lambda>_. ''database error'') \<rparr>"

definition demo_database :: "unit server" where
  "demo_database =
     \<lparr> srv_db = empty_tables, srv_seqs = initial_sequences, srv_tx = None,
       srv_cache = [], srv_metrics = new_metrics, srv_faults = [] \<rparr>"

definition demo_cash :: CreateAccountRequest where
  "demo_cash = \<lparr> car_account_type = 1, car_asset_code = ''USD'', car_asset_scale = 2 \<rparr>"

definition demo_owed :: CreateAccountRequest where
  "demo_owed = \<lparr> car_account_type = 2, car_asset_code = ''USD'', car_asset_scale = 2 \<rparr>"

text \<open>Move an amount into (\<open>True\<close>) or out of the cash account, against the liability.\<close>

definition demo_transfer :: "string \<Rightarrow> bool \<Rightarrow> i64 \<Rightarrow> AuthorizeRequest" where
  "demo_transfer key into amount =
     \<lparr> aur_idempotency_key = key,
       aur_legs =
         [\<lparr> pl_account_id = 1, pl_entry_type = (if into then 1 else 2), pl_amount = amount \<rparr>,
          \<lparr> pl_account_id = 2, pl_entry_type = (if into then 2 else 1), pl_amount = amount \<rparr>],
       aur_metadata = [] \<rparr>"

fun serve_all :: "request list \<Rightarrow> unit server \<Rightarrow> unit server" where
  "serve_all [] s = s"
| "serve_all (req # reqs) s = serve_all reqs (snd (prun (dispatch demo_env req) (s\<lparr>srv_faults := []\<rparr>)))"

definition demo_started :: "unit server" where
  "demo_started = snd (prun serve_start demo_database)"

text \<open>The tables after each request of the history.\<close>

definition demo_account :: "i64 \<Rightarrow> i16 \<Rightarrow> i32 \<Rightarrow> i64 \<Rightarrow> i64 \<Rightarrow> account_row" where
  "demo_account i type version posted pending =
     \<lparr> ar_id = i, ar_account_type = type, ar_asset_code = ''USD'', ar_asset_scale = 2, ar_version = version,
       ar_posted_balance = posted, ar_pending_balance = pending, ar_created_at = 1000 \<rparr>"

definition demo_transaction :: "i64 \<Rightarrow> string \<Rightarrow> i16 \<Rightarrow> unit transaction_row" where
  "demo_transaction i key status =
     \<lparr> tr_id = i, tr_idempotency_key = key, tr_status = status, tr_metadata = (), tr_created_at = 1000,
       tr_posted_at = (if status = 2 then Some 1000 else None) \<rparr>"

definition demo_entries :: "i64 \<Rightarrow> i64 \<Rightarrow> bool \<Rightarrow> i64 \<Rightarrow> i16 \<Rightarrow> entry_row list" where
  "demo_entries i tid into amount status =
     [\<lparr> er_id = i, er_transaction_id = tid, er_account_id = 1, er_entry_type = (if into then 1 else 2),
        er_amount = amount, er_status = status, er_created_at = 1000 \<rparr>,
      \<lparr> er_id = i + 1, er_transaction_id = tid, er_account_id = 2, er_entry_type = (if into then 2 else 1),
        er_amount = amount, er_status = status, er_created_at = 1000 \<rparr>]"

definition demo_server :: "unit tables \<Rightarrow> unit server" where
  "demo_server T =
     \<lparr> srv_db = T,
       srv_seqs = \<lparr> accounts_id_seq = length (tbl_accounts T) + 1,
         transactions_id_seq = length (tbl_transactions T) + 1, entries_id_seq = length (tbl_entries T) + 1 \<rparr>,
       srv_tx = None,
       srv_cache = map (\<lambda>a. (AccountId (ar_id a),
         \<lparr> cb_posted = ar_posted_balance a, cb_pending = ar_pending_balance a \<rparr>)) (tbl_accounts T),
       srv_metrics = new_metrics, srv_faults = [] \<rparr>"

definition demo_opened :: "unit server" where
  "demo_opened = demo_server
     \<lparr> tbl_accounts = [demo_account 1 1 0 0 0, demo_account 2 2 0 0 0],
       tbl_transactions = [], tbl_entries = [] \<rparr>"

definition demo_pending :: "unit server" where
  "demo_pending = demo_server
     \<lparr> tbl_accounts = [demo_account 1 1 1 0 500, demo_account 2 2 1 0 500],
       tbl_transactions = [demo_transaction 1 ''deposit'' 1],
       tbl_entries = demo_entries 1 1 True 500 1 \<rparr>"

definition demo_posted :: "unit server" where
  "demo_posted = demo_server
     \<lparr> tbl_accounts = [demo_account 1 1 2 500 0, demo_account 2 2 2 500 0],
       tbl_transactions = [demo_transaction 1 ''deposit'' 2],
       tbl_entries = demo_entries 1 1 True 500 2 \<rparr>"

definition demo_withdrawing :: "unit server" where
  "demo_withdrawing = demo_server
     \<lparr> tbl_accounts = [demo_account 1 1 3 500 (- 200), demo_account 2 2 3 500 (- 200)],
       tbl_transactions = [demo_transaction 1 ''deposit'' 2, demo_transaction 2 ''withdrawal'' 1],
       tbl_entries = demo_entries 1 1 True 500 2 @ demo_entries 3 2 False 200 1 \<rparr>"

definition demo_voided :: "unit server" where
  "demo_voided = demo_server
     \<lparr> tbl_accounts = [demo_account 1 1 4 500 0, demo_account 2 2 4 500 0],
       tbl_transactions = [demo_transaction 1 ''deposit'' 2, demo_transaction 2 ''withdrawal'' 3],
       tbl_entries = demo_entries 1 1 True 500 2 @ demo_entries 3 2 False 200 3 \<rparr>"

definition observed :: "unit server \<Rightarrow> unit tables \<times> sequences \<times> (AccountId \<times> i64 \<times> i64) list" where
  "observed s = (srv_db s, srv_seqs s, cache_iter (srv_cache s))"

text \<open>The handlers take each state to the next.\<close>

lemma demo_run:
  "observed (serve_all [CreateAccount demo_cash, CreateAccount demo_owed] demo_started) = observed demo_opened"
  "observed (serve_all [Authorize (demo_transfer ''deposit'' True 500)] demo_opened) = observed demo_pending"
  "observed (serve_all [Capture 1] demo_pending) = observed demo_posted"
  "observed (serve_all [Authorize (demo_transfer ''withdrawal'' False 200)] demo_posted) = observed demo_withdrawing"
  "observed (serve_all [Void 2] demo_withdrawing) = observed demo_voided"
  by code_simp+

lemma demo_inv:
  "ledger_inv demo_opened" "ledger_inv demo_pending" "ledger_inv demo_posted"
  "ledger_inv demo_withdrawing" "ledger_inv demo_voided"
  by code_simp+

lemma demo_coherent:
  "cache_coherent demo_opened" "cache_coherent demo_pending" "cache_coherent demo_posted"
  "cache_coherent demo_withdrawing" "cache_coherent demo_voided"
proof -
  have *: "cache_wf (srv_cache s) \<and> distinct (map ar_id (tbl_accounts (srv_db s)))
      \<and> cache_defects (srv_cache s) (tbl_accounts (srv_db s)) = 0 \<Longrightarrow> cache_coherent s" for s :: "unit server"
    unfolding cache_coherent_def using mirrors_defects by blast
  show "cache_coherent demo_opened" "cache_coherent demo_pending" "cache_coherent demo_posted"
    "cache_coherent demo_withdrawing" "cache_coherent demo_voided"
    by (rule *, code_simp)+
qed

lemma serve_all_reachable: "reachable False s \<Longrightarrow> reachable False (serve_all reqs s)"
proof (induction reqs arbitrary: s)
  case (Cons req reqs)
  obtain r t where run: "prun (dispatch demo_env req) (s\<lparr>srv_faults := []\<rparr>) = (r, t)" by force
  have "serves False s t" by (rule serves.answer [OF _ run]) (simp add: faults_ok_def)
  then have "reachable False t" using Cons.prems by (rule reachable.serve [rotated])
  with Cons.IH run show ?case by simp
qed simp

lemma demo_started_reachable: "reachable False demo_started"
proof (rule reachable.start)
  show "migrated demo_database" by (simp add: migrated_def demo_database_def)
  have "fst (prun serve_start demo_database) = Ok ()" by code_simp
  then show "prun serve_start demo_database = (Ok (), demo_started)"
    unfolding demo_started_def by (metis prod.collapse)
qed

text \<open>
  After a restart the state is the one written above: the cache holds the balance columns in
  the order of the rows, the metrics are new.
\<close>

lemma serve_start_state:
  "prun serve_start (s\<lparr>srv_faults := []\<rparr>) = (Ok (),
     \<lparr> srv_db = srv_db s, srv_seqs = srv_seqs s, srv_tx = None,
       srv_cache = rehydrate BalanceCache_new
         (map (\<lambda>r. (AccountId (ar_id r), ar_posted_balance r, ar_pending_balance r)) (tbl_accounts (srv_db s))),
       srv_metrics = new_metrics, srv_faults = [] \<rparr>)"
  by (simp add: serve_start_def prun_pbind prun_await load_all_balances_def query_pool_def execute_def
      perform_def select_def next_fault_def view_def AccountId_from_raw_def comp_def)

definition settled_state :: "unit server \<Rightarrow> bool" where
  "settled_state s \<longleftrightarrow> srv_tx s = None \<and> srv_faults s = []
     \<and> srv_cache s = rehydrate BalanceCache_new
         (map (\<lambda>r. (AccountId (ar_id r), ar_posted_balance r, ar_pending_balance r)) (tbl_accounts (srv_db s)))"

lemma demo_settled:
  "settled_state demo_opened" "settled_state demo_pending" "settled_state demo_posted"
  "settled_state demo_withdrawing" "settled_state demo_voided"
  by code_simp+

lemma demo_step_reachable:
  assumes "reachable False s" and "observed (serve_all reqs s) = observed u" and "settled_state u" and "srv_metrics u = new_metrics"
  shows "reachable False u"
proof -
  let ?t = "serve_all reqs s"
  have same: "srv_db ?t = srv_db u" "srv_seqs ?t = srv_seqs u" using assms(2) by (simp_all add: observed_def)
  have "prun serve_start (?t\<lparr>srv_faults := []\<rparr>) = (Ok (), u)"
    unfolding serve_start_state same using assms(3,4) by (simp add: settled_state_def)
  then have "serves False ?t u" by (rule serves.restart [rotated]) (simp add: faults_ok_def)
  with serve_all_reachable [OF assms(1)] show ?thesis by (rule reachable.serve)
qed

lemma demo_metrics:
  "srv_metrics demo_opened = new_metrics" "srv_metrics demo_pending = new_metrics" "srv_metrics demo_posted = new_metrics"
  "srv_metrics demo_withdrawing = new_metrics" "srv_metrics demo_voided = new_metrics"
  by (simp_all add: demo_opened_def demo_pending_def demo_posted_def demo_withdrawing_def demo_voided_def demo_server_def)

lemma demo_reachable:
  "reachable False demo_opened" "reachable False demo_pending" "reachable False demo_posted"
  "reachable False demo_withdrawing" "reachable False demo_voided"
proof -
  show 1: "reachable False demo_opened"
    by (rule demo_step_reachable [OF demo_started_reachable demo_run(1) demo_settled(1) demo_metrics(1)])
  show 2: "reachable False demo_pending" by (rule demo_step_reachable [OF 1 demo_run(2) demo_settled(2) demo_metrics(2)])
  show 3: "reachable False demo_posted" by (rule demo_step_reachable [OF 2 demo_run(3) demo_settled(3) demo_metrics(3)])
  show 4: "reachable False demo_withdrawing" by (rule demo_step_reachable [OF 3 demo_run(4) demo_settled(4) demo_metrics(4)])
  show "reachable False demo_voided" by (rule demo_step_reachable [OF 4 demo_run(5) demo_settled(5) demo_metrics(5)])
qed

end
