(* ===== verification/Races.thy ===== *)
theory Races
  imports Locking Example
begin

section \<open>Schedules of the handlers\<close>

text \<open>
  What interleaving does to the requests: no deadlock and termination for all of them; and
  the one interleaving that breaks the books, two captures of the same transaction that both
  read it while it is pending. The reading takes no lock on the transaction, and its state is
  not read again once the accounts are locked.
\<close>

fun answered :: "(row_lock list, 'j server, ('a, 'e) result) prog \<Rightarrow> bool" where
  "answered (Done r) \<longleftrightarrow> is_ok r"
| "answered (Step l f) \<longleftrightarrow> False"

text \<open>
  C14. No deadlock: whatever requests are served concurrently, from any state, with any
  faults and any schedule, as long as some request is not answered some task can run.
\<close>

theorem requests_never_deadlock:
  assumes "interleaves\<^sup>*\<^sup>* (s, accepted reqs) (t, ts)"
  shows "(\<forall>x \<in> set ts. finished (ses_prog x)) \<or> (\<exists>k. may_step ts k)"
  using no_deadlock [OF reached_ok [OF assms accepted_ok]] by (metis in_set_conv_nth)

theorem requests_never_deadlock_witness:
  "(\<forall>x \<in> set (accepted [(demo_env, Capture 1), (demo_env, Void 1)]). finished (ses_prog x))
     \<or> (\<exists>k. may_step (accepted [(demo_env, Capture 1), (demo_env, Void 1)]) k)"
  by (rule requests_never_deadlock [OF rtranclp.rtrancl_refl])



subsection \<open>Two captures\<close>

definition two_captures :: "unit server \<times> unit session list" where
  "two_captures = (demo_pending, accepted [(demo_env, Capture 1), (demo_env, Capture 1)])"

text \<open>Both read the transaction, then one runs to its end, then the other.\<close>

definition race :: "nat list" where
  "race = [0, 0, 1, 1, 1] @ replicate 12 0 @ replicate 11 1"

lemma race_run:
  "(case schedule race two_captures of
      None \<Rightarrow> None
    | Some (t, ts) \<Rightarrow> Some (map (answered \<circ> ses_prog) ts, map ar_posted_balance (tbl_accounts (srv_db t)),
        map ar_pending_balance (tbl_accounts (srv_db t)), inexact_accounts (srv_db t)))
   = Some ([True, True], [1000, 1000], [- 500, - 500], 2)"
  by code_simp

text \<open>
  C19. Two concurrent captures of one transaction can both succeed and post it twice: a
  deposit of 500 leaves the balances at 1000 posted and -500 pending, and both accounts
  differ from their entries.
\<close>

theorem concurrent_captures_post_twice:
  "\<exists>t x y. interleaves\<^sup>*\<^sup>* two_captures (t, [x, y]) \<and> answered (ses_prog x) \<and> answered (ses_prog y)
     \<and> map ar_posted_balance (tbl_accounts (srv_db t)) = [1000, 1000]
     \<and> map ar_pending_balance (tbl_accounts (srv_db t)) = [- 500, - 500]
     \<and> \<not> balances_ok (srv_db t)"
proof -
  from race_run obtain t ts where run: "schedule race two_captures = Some (t, ts)"
    and ts: "map (answered \<circ> ses_prog) ts = [True, True]"
    and t: "map ar_posted_balance (tbl_accounts (srv_db t)) = [1000, 1000]"
      "map ar_pending_balance (tbl_accounts (srv_db t)) = [- 500, - 500]" "inexact_accounts (srv_db t) = 2"
    by (auto split: option.splits prod.splits)
  from ts obtain x y where "ts = [x, y]" "answered (ses_prog x)" "answered (ses_prog y)" by (auto simp: map_eq_Cons_conv)
  note this(2,3)
  moreover have "\<not> balances_ok (srv_db t)" using t(3) by (simp add: balances_ok_exact)
  moreover have "interleaves\<^sup>*\<^sup>* two_captures (t, [x, y])"
    using schedule_interleaves [OF run] \<open>ts = [x, y]\<close> by simp
  ultimately show ?thesis using t(1,2) by (intro exI [of _ t] exI [of _ x] exI [of _ y] conjI)
qed

end
