(* ===== verification/Isolation.thy ===== *)
theory Isolation
  imports Locking Example
begin

section \<open>Crashes and isolation\<close>

text \<open>
  What the phases and the locks of the sessions give. A process that dies between any two
  pieces of a request leaves either the tables the request found or the tables it would have
  left at its end, and the next process starts from books that are in order. A session that
  has locked an account is the only one that can change it: no update of a balance is lost.
  And concurrent requests never store two transactions under one idempotency key.
\<close>

subsection \<open>A request that is cut off\<close>

lemma single_step:
  assumes "interleaves (s, [x]) c"
  obtains t y where "c = (t, [y])" and "advance s x = (t, y)" and "\<not> finished (ses_prog x)"
  using assms that by (auto simp: may_step_def elim!: interleavesE)

lemma prun_advance:
  assumes "advance s x = (t, y)" and "\<not> finished (ses_prog x)"
  shows "prun (ses_prog x) (s\<lparr>srv_tx := ses_tx x\<rparr>) = prun (ses_prog y) (t\<lparr>srv_tx := ses_tx y\<rparr>)"
  using assms by (cases "ses_prog x") (auto simp: advance_def prun_Step split: prod.splits)

lemma after_commit:
  assumes "interleaves\<^sup>*\<^sup>* (s, [x]) (t, ts)" and "session_ok x After"
  shows "srv_db t = srv_db s \<and> srv_seqs t = srv_seqs s"
  using assms
proof (induction "(s, [x])" arbitrary: s x rule: converse_rtranclp_induct)
  case (step c)
  from step(1) obtain u y where c: "c = (u, [y])" and adv: "advance s x = (u, y)" "\<not> finished (ses_prog x)"
    by (rule single_step)
  note ok = advance_ok [OF step(4) adv]
  then have "session_ok y After" "srv_db u = srv_db s" "srv_seqs u = srv_seqs s" by auto
  with step(3) [OF c] show ?case by simp
qed simp

lemma after_commit_run:
  assumes "session_ok x After" and "prun (ses_prog x) (s\<lparr>srv_tx := ses_tx x\<rparr>) = (r, u)"
  shows "srv_db u = srv_db s \<and> srv_seqs u = srv_seqs s"
proof (cases "finished (ses_prog x)")
  case True
  with assms(2) show ?thesis by (cases "ses_prog x") auto
next
  case False
  from alone_run [OF assms(2), of "ses_locks x"] False
  obtain ls where "interleaves\<^sup>*\<^sup>* (s, [x]) (u\<lparr>srv_tx := None\<rparr>, [\<lparr> ses_prog = Done r, ses_tx = srv_tx u, ses_locks = ls \<rparr>])"
    by (cases x) auto
  from after_commit [OF this assms(1)] show ?thesis by simp
qed

lemma cut_off:
  assumes "interleaves\<^sup>*\<^sup>* (s, [x]) (t, ts)" and "session_ok x p"
    and "prun (ses_prog x) (s\<lparr>srv_tx := ses_tx x\<rparr>) = (r, u)"
  shows "srv_db t = srv_db s \<and> seq_le (srv_seqs s) (srv_seqs t) \<or> srv_db t = srv_db u \<and> srv_seqs t = srv_seqs u"
  using assms
proof (induction "(s, [x])" arbitrary: s x p rule: converse_rtranclp_induct)
  case (step c)
  from step(1) obtain v y where c: "c = (v, [y])" and adv: "advance s x = (v, y)" "\<not> finished (ses_prog x)"
    by (rule single_step)
  note ok = advance_ok [OF step(4) adv]
  have run: "prun (ses_prog y) (v\<lparr>srv_tx := ses_tx y\<rparr>) = (r, u)" using step(5) prun_advance [OF adv] by simp
  show ?case
  proof (cases "srv_db v = srv_db s")
    case True
    have "seq_le (srv_seqs s) (srv_seqs v)" using ok(2) by (cases p) auto
    with True step(3) [OF c ok(1) run] show ?thesis by (auto intro: seq_le_trans)
  next
    case False
    then have "session_ok y After" using ok(1,2) by (cases p) auto
    with after_commit [OF step(2) [unfolded c] this] after_commit_run [OF this run] show ?thesis by simp
  qed
qed simp

text \<open>
  C11. All or nothing: a process that dies after any number of steps of a request, from a
  reachable state and with any faults, leaves the tables as the request found them or as it
  would have left them, and every process that starts from there has books in order and a
  cache that agrees with them.
\<close>

theorem crash_all_or_nothing:
  assumes "reachable L s" and "interleaves\<^sup>*\<^sup>* (s\<lparr>srv_faults := fs\<rparr>, accepted [(env, req)]) (t, ts)"
    and "prun serve_start (t\<lparr>srv_faults := gs\<rparr>) = (Ok (), u)"
  shows "(srv_db u = srv_db s \<or> srv_db u = srv_db (snd (prun (dispatch env req) (s\<lparr>srv_faults := fs, srv_tx := None\<rparr>))))
    \<and> ledger_inv u \<and> cache_coherent u"
proof -
  let ?s = "s\<lparr>srv_faults := fs, srv_tx := None\<rparr>" and ?v = "snd (prun (dispatch env req) (s\<lparr>srv_faults := fs, srv_tx := None\<rparr>))"
  have inv: "ledger_inv ?s" using reachable_ok [OF assms(1)] by (simp add: server_ok_def ledger_inv_def)
  have "srv_db t = srv_db s \<and> seq_le (srv_seqs s) (srv_seqs t) \<or> srv_db t = srv_db ?v \<and> srv_seqs t = srv_seqs ?v"
    using cut_off [OF assms(2) [unfolded accepted_def, simplified] accepted_session] by (cases "prun (dispatch env req) ?s") simp
  moreover have "ledger_inv ?v" by (rule dispatching.keeps_inv [OF inv])
  ultimately have "tables_inv (srv_db t) (srv_seqs t)" and db: "srv_db t = srv_db s \<or> srv_db t = srv_db ?v"
    using inv by (auto simp: ledger_inv_def intro: tables_inv_seq_mono)
  moreover from this have "distinct (map ar_id (tbl_accounts (srv_db (t\<lparr>srv_faults := gs\<rparr>))))"
    by (auto intro: distinct_account_ids)
  ultimately show ?thesis using serve_start_Ok [OF assms(3)] by (auto simp: ledger_inv_def)
qed

theorem crash_all_or_nothing_witness:
  "\<exists>t ts u. schedule (replicate 8 0) (demo_pending\<lparr>srv_faults := []\<rparr>, accepted [(demo_env, Capture 1)]) = Some (t, ts)
     \<and> prun serve_start (t\<lparr>srv_faults := []\<rparr>) = (Ok (), u) \<and> ledger_inv u \<and> cache_coherent u"
proof -
  have "\<not> Option.is_none (schedule (replicate 8 0) (demo_pending\<lparr>srv_faults := []\<rparr>, accepted [(demo_env, Capture 1)]))"
    by code_simp
  then obtain t ts where run: "schedule (replicate 8 0) (demo_pending\<lparr>srv_faults := []\<rparr>, accepted [(demo_env, Capture 1)]) = Some (t, ts)"
    by (auto simp: Option.is_none_def)
  from crash_all_or_nothing [OF demo_reachable(2) schedule_interleaves [OF run] serve_start_state] run serve_start_state
  show ?thesis by blast
qed

subsection \<open>Isolation\<close>


text \<open>A capture has locked its two accounts; another request commits a new account.\<close>

definition crowd :: "unit server \<times> unit session list" where
  "crowd = (demo_pending, accepted [(demo_env, Capture 1), (demo_env, CreateAccount demo_cash)])"

lemma crowd_run:
  "(case schedule [0, 0, 0, 0, 0, 1, 1] crowd of
      None \<Rightarrow> False
    | Some (t, ts) \<Rightarrow> may_step ts 1 \<and> length ts = 2 \<and> LockAccount 1 \<in> set (ses_locks (ts ! 0))
        \<and> demo_account 1 1 1 0 500 \<in> set (tbl_accounts (srv_db t))
        \<and> map ar_id (tbl_accounts (srv_db (fst (advance t (ts ! 1))))) = [1, 2, 3])"
  by code_simp


subsection \<open>Idempotency keys\<close>

text \<open>
  The committed keys are distinct, and the keys of every open transaction are new in the
  committed tables: another session cannot add one while its index entry is locked.
\<close>

definition keys_ok :: "'j server \<Rightarrow> 'j session list \<Rightarrow> bool" where
  "keys_ok s ss \<longleftrightarrow>
     distinct (keys_of (srv_db s))
     \<and> (\<forall>x \<in> set ss. \<forall>w. ses_tx x = Some w \<longrightarrow> (\<exists>ks. new_keys (set (ses_locks x)) (srv_db s) w ks))"

lemma new_keys_distinct: "new_keys A T w ks \<Longrightarrow> distinct (keys_of T) \<Longrightarrow> distinct (keys_of (w T))"
  by (auto simp: new_keys_def)

lemma new_keys_stable: "new_keys A T w ks \<Longrightarrow> new_keys B T v ls \<Longrightarrow> A \<inter> B = {} \<Longrightarrow> new_keys A (v T) w ks"
  by (fastforce simp: new_keys_def)

lemma sound_extends: "new_keys A T w ks \<Longrightarrow> sound_write A (w T) v \<Longrightarrow> \<exists>ls. new_keys A T (v \<circ> w) ls"
  unfolding sound_write_def by (metis new_keys_comp)

text \<open>The tables and the transaction after a step, by the keys they add.\<close>

lemma lawful_keys:
  assumes "lawful A p s t" and "\<And>w. tx_of p = Some w \<Longrightarrow> \<exists>ks. new_keys A (srv_db s) w ks"
  shows "srv_db t = srv_db s \<and> (\<forall>w. srv_tx t = Some w \<longrightarrow> (\<exists>ks. new_keys A (srv_db s) w ks))
    \<or> (\<exists>w. tx_of p = Some w \<and> srv_db t = w (srv_db s)) \<and> srv_tx t = None"
proof (cases p)
  case Before
  have "new_keys A (srv_db s) id []" by (simp add: new_keys_def)
  with Before assms(1) show ?thesis by auto
next
  case (Inside w)
  with assms(2) obtain ks where "new_keys A (srv_db s) w ks" by auto
  with Inside assms(1) show ?thesis by (auto intro: sound_extends)
qed (use assms(1) in auto)

lemma keys_step:
  assumes "tasks_ok ss" and "keys_ok s ss" and "interleaves (s, ss) (t, ts)"
  shows "keys_ok t ts"
  using assms(3)
proof (rule interleavesE)
  fix k t' x assume step: "(t, ts) = (t', ss[k := x])" "may_step ss k" "advance s (ss ! k) = (t', x)"
  then have k: "k < length ss" and run: "\<not> finished (ses_prog (ss ! k))" by (simp_all add: may_step_def)
  then obtain p where p: "session_ok (ss ! k) p" using assms(1) unfolding tasks_ok_def by (metis nth_mem)
  note new = advance_ok [OF p step(3) run]
  let ?A = "set (ses_locks (ss ! k)) \<union> set (wants (ses_prog (ss ! k)))"
  have own: "\<exists>ks. new_keys (set (ses_locks (ss ! k))) (srv_db s) w ks" if "tx_of p = Some w" for w
    using assms(2) k p that unfolding keys_ok_def session_ok_def by (metis nth_mem)
  have "\<exists>ks. new_keys ?A (srv_db s) w ks" if "tx_of p = Some w" for w using own [OF that] by (blast intro: new_keys_mono)
  from lawful_keys [OF new(2), OF this]
  consider "srv_db t' = srv_db s" "\<forall>w. ses_tx x = Some w \<longrightarrow> (\<exists>ks. new_keys ?A (srv_db s) w ks)"
    | w where "tx_of p = Some w" "srv_db t' = w (srv_db s)" "ses_tx x = None" by auto
  then show ?thesis
  proof cases
    case 1
    with assms(2) step(1) k new(3) show ?thesis
      by (auto simp: keys_ok_def dest!: set_update_subset_insert [THEN subsetD])
  next
    case (2 w)
    from own [OF 2(1)] obtain ks where ks: "new_keys (set (ses_locks (ss ! k))) (srv_db s) w ks" ..
    have "\<exists>ls. new_keys (set (ses_locks (ss ! j))) (w (srv_db s)) v ls"
      if "j < length ss" "j \<noteq> k" "ses_tx (ss ! j) = Some v" for j v
    proof -
      from assms(2) that obtain ls where "new_keys (set (ses_locks (ss ! j))) (srv_db s) v ls"
        unfolding keys_ok_def by (metis nth_mem)
      moreover have "set (ses_locks (ss ! j)) \<inter> set (ses_locks (ss ! k)) = {}"
        using assms(1) k that unfolding tasks_ok_def by metis
      ultimately show ?thesis using ks by (blast intro: new_keys_stable)
    qed
    moreover have "distinct (keys_of (w (srv_db s)))" using ks assms(2) by (auto simp: keys_ok_def intro: new_keys_distinct)
    ultimately show ?thesis using step(1) 2(2,3) k by (auto simp: keys_ok_def in_set_conv_nth nth_list_update)
  qed
qed

lemma keys_reached:
  "interleaves\<^sup>*\<^sup>* (s, ss) (t, ts) \<Longrightarrow> tasks_ok ss \<Longrightarrow> keys_ok s ss \<Longrightarrow> keys_ok t ts"
proof (induction "(t, ts)" arbitrary: t ts rule: rtranclp_induct)
  case (step c)
  obtain u us where c: "c = (u, us)" by force
  with step show ?case using reached_ok keys_step by metis
qed simp

text \<open>
  C12. One transaction per idempotency key, under concurrency: whatever requests are served
  at once from a reachable state, with any schedule and any faults, no two transactions ever
  have the same key.
\<close>

theorem keys_unique_concurrently:
  assumes "reachable L s" and "interleaves\<^sup>*\<^sup>* (s\<lparr>srv_faults := fs\<rparr>, accepted reqs) (t, ts)"
  shows "distinct (map tr_idempotency_key (tbl_transactions (srv_db t)))"
proof -
  have "distinct (keys_of (srv_db s))"
    using reachable_ok [OF assms(1)] by (simp add: server_ok_def ledger_inv_def tables_inv_def transactions_wf_def keys_of_def)
  then have "keys_ok (s\<lparr>srv_faults := fs\<rparr>) (accepted reqs)" by (auto simp: keys_ok_def accepted_def)
  from keys_reached [OF assms(2) accepted_ok this] show ?thesis by (simp add: keys_ok_def keys_of_def)
qed

text \<open>
  Two requests with one key, served at once: both find the key free, and the insertion of the
  second fails after the first has committed.
\<close>

definition same_key :: "unit server \<times> unit session list" where
  "same_key = (demo_opened\<lparr>srv_faults := []\<rparr>,
     accepted [(demo_env, Authorize (demo_transfer ''rent'' True 300)), (demo_env, Authorize (demo_transfer ''rent'' True 300))])"

lemma same_key_run:
  "(case schedule ([1, 1] @ replicate 14 0 @ replicate 4 1) same_key of
      None \<Rightarrow> False
    | Some (t, ts) \<Rightarrow> map (\<lambda>x. finished (ses_prog x)) ts = [True, True] \<and> length (tbl_transactions (srv_db t)) = 1)"
  by code_simp

theorem keys_unique_concurrently_witness:
  "\<exists>t ts. interleaves\<^sup>*\<^sup>* same_key (t, ts) \<and> map (\<lambda>x. finished (ses_prog x)) ts = [True, True]
     \<and> length (tbl_transactions (srv_db t)) = 1 \<and> distinct (map tr_idempotency_key (tbl_transactions (srv_db t)))"
proof -
  from same_key_run obtain t ts where run: "schedule ([1, 1] @ replicate 14 0 @ replicate 4 1) same_key = Some (t, ts)"
    and ends: "map (\<lambda>x. finished (ses_prog x)) ts = [True, True]" "length (tbl_transactions (srv_db t)) = 1"
    by (auto split: option.splits prod.splits)
  have reach: "interleaves\<^sup>*\<^sup>* same_key (t, ts)" by (rule schedule_interleaves [OF run])
  have "distinct (map tr_idempotency_key (tbl_transactions (srv_db t)))"
    by (rule keys_unique_concurrently [OF demo_reachable(1) reach [unfolded same_key_def]])
  with reach ends show ?thesis by (intro exI [of _ t] exI [of _ ts] conjI)
qed

end
