(* ===== verification/Funds.thy ===== *)
theory Funds
  imports Example
begin

section \<open>What the checks of a request do not cover\<close>

text \<open>
  Four runs, evaluated from reachable states, in which a request passes the checks of the
  handlers although the documents suggest that it should not.
\<close>

definition demo_overspent :: "unit server" where
  "demo_overspent = demo_server
     \<lparr> tbl_accounts = [demo_account 1 1 4 500 (- 800), demo_account 2 2 4 500 (- 800)],
       tbl_transactions = [demo_transaction 1 ''deposit'' 2, demo_transaction 2 ''withdrawal'' 1, demo_transaction 3 ''second'' 1],
       tbl_entries = demo_entries 1 1 True 500 2 @ demo_entries 3 2 False 200 1 @ demo_entries 5 3 False 600 1 \<rparr>"

lemma demo_overspent_run:
  "observed (serve_all [Authorize (demo_transfer ''second'' False 600)] demo_withdrawing) = observed demo_overspent"
  by code_simp

lemma demo_overspent_capture:
  "map (\<lambda>a. sint (ar_posted_balance a)) (tbl_accounts (srv_db (serve_all [Capture 2, Capture 3] demo_overspent))) = [- 300, - 300]"
  by code_simp

text \<open>
  C20. A pending withdrawal does not reserve funds. The available balance is the posted minus
  the pending one, and a pending withdrawal counts negative: with 500 posted and a pending
  withdrawal of 200 the service reports 700 as available, accepts a withdrawal of 600, and
  capturing both leaves the asset account at -300.
\<close>

theorem withdrawals_overspend:
  "reachable False demo_withdrawing
   \<and> fst (prun (rpc_get_balance demo_env 1) demo_withdrawing) = Ok \<lparr> pb_posted = 500, pb_pending = - 200, pb_available = 700 \<rparr>
   \<and> is_ok (fst (prun (rpc_authorize demo_env (demo_transfer ''second'' False 600)) demo_withdrawing))
   \<and> (\<exists>s. reachable False s \<and> srv_db s = srv_db (serve_all [Authorize (demo_transfer ''second'' False 600)] demo_withdrawing)
        \<and> map (\<lambda>a. sint (ar_posted_balance a)) (tbl_accounts (srv_db (serve_all [Capture 2, Capture 3] s))) = [- 300, - 300])"
proof (intro conjI exI)
  show "reachable False demo_withdrawing" by (rule demo_reachable)
  show "fst (prun (rpc_get_balance demo_env 1) demo_withdrawing) = Ok \<lparr> pb_posted = 500, pb_pending = - 200, pb_available = 700 \<rparr>"
    by code_simp
  show "is_ok (fst (prun (rpc_authorize demo_env (demo_transfer ''second'' False 600)) demo_withdrawing))" by code_simp
  have "settled_state demo_overspent" by code_simp
  then show "reachable False demo_overspent"
    by (rule demo_step_reachable [OF demo_reachable(4) demo_overspent_run]) (simp add: demo_overspent_def demo_server_def)
  show "srv_db demo_overspent = srv_db (serve_all [Authorize (demo_transfer ''second'' False 600)] demo_withdrawing)"
    using demo_overspent_run by (simp add: observed_def)
  show "map (\<lambda>a. sint (ar_posted_balance a)) (tbl_accounts (srv_db (serve_all [Capture 2, Capture 3] demo_overspent))) = [- 300, - 300]"
    by (rule demo_overspent_capture)
qed

text \<open>
  The funds are checked leg by leg: a transfer with two withdrawals of 400 from the same
  account is accepted although only 500 are available.
\<close>

definition demo_split :: AuthorizeRequest where
  "demo_split =
     \<lparr> aur_idempotency_key = ''split'',
       aur_legs =
         [\<lparr> pl_account_id = 1, pl_entry_type = 2, pl_amount = 400 \<rparr>, \<lparr> pl_account_id = 1, pl_entry_type = 2, pl_amount = 400 \<rparr>,
          \<lparr> pl_account_id = 2, pl_entry_type = 1, pl_amount = 400 \<rparr>, \<lparr> pl_account_id = 2, pl_entry_type = 1, pl_amount = 400 \<rparr>],
       aur_metadata = [] \<rparr>"

theorem funds_checked_per_leg:
  "reachable False demo_posted
   \<and> fst (prun (rpc_get_balance demo_env 1) demo_posted) = Ok \<lparr> pb_posted = 500, pb_pending = 0, pb_available = 500 \<rparr>
   \<and> is_ok (fst (prun (rpc_authorize demo_env demo_split) demo_posted))
   \<and> map (\<lambda>a. sint (ar_pending_balance a)) (tbl_accounts (srv_db (serve_all [Authorize demo_split] demo_posted))) = [- 800, - 800]"
proof (intro conjI)
  show "reachable False demo_posted" by (rule demo_reachable)
qed code_simp+

text \<open>
  The scale of an account is checked after it was cut to eight bits: a request for a
  scale of 258 creates an account with scale 2.
\<close>

theorem asset_scale_truncated:
  "(case fst (prun (rpc_create_account demo_env (demo_cash\<lparr>car_asset_scale := 258\<rparr>)) demo_opened) of
      Ok a \<Rightarrow> pa_asset_scale a = 2 | Err e \<Rightarrow> False)"
  by code_simp

text \<open>
  A transfer may move an amount between accounts of different assets: nothing compares
  the asset codes or the scales of the accounts of a transfer.
\<close>

definition demo_two_assets :: "unit server" where
  "demo_two_assets = demo_server
     \<lparr> tbl_accounts = [demo_account 1 1 0 0 0, (demo_account 2 2 0 0 0)\<lparr>ar_asset_code := ''JPY'', ar_asset_scale := 0\<rparr>],
       tbl_transactions = [], tbl_entries = [] \<rparr>"

theorem assets_not_compared:
  "reachable False demo_two_assets
   \<and> is_ok (fst (prun (rpc_authorize demo_env (demo_transfer ''mixed'' True 500)) demo_two_assets))"
proof
  have "observed (serve_all [CreateAccount demo_cash,
      CreateAccount (demo_owed\<lparr>car_asset_code := ''JPY'', car_asset_scale := 0\<rparr>)] demo_started) = observed demo_two_assets"
    by code_simp
  moreover have "settled_state demo_two_assets" by code_simp
  ultimately show "reachable False demo_two_assets"
    by (rule demo_step_reachable [OF demo_started_reachable]) (simp add: demo_two_assets_def demo_server_def)
  show "is_ok (fst (prun (rpc_authorize demo_env (demo_transfer ''mixed'' True 500)) demo_two_assets))" by code_simp
qed

end
