(* ===== verification/GrpcMetrics.thy ===== *)
theory GrpcMetrics
  imports Example
begin

section \<open>Metrics of the RPC layer (\<open>observability/grpc_metrics.rs\<close>)\<close>

text \<open>
  The layer around the service that counts every call under the name of its method and the
  label of its status. Label values come from fixed lists, whatever a client sends. The inner
  service and the headers it answers with are parameters.
\<close>

text \<open>\<open>path.rsplit('/').next()\<close>: what follows the last slash.\<close>

definition rsplit_next :: "string \<Rightarrow> string" where
  "rsplit_next path = rev (takeWhile (\<lambda>c. c \<noteq> CHR ''/'') (rev path))"

definition known_methods :: "string list" where
  "known_methods =
     [''CreateAccount'', ''GetAccount'', ''GetBalance'', ''Authorize'', ''Capture'', ''Void'', ''GetEntries'']"

definition extract_method_name :: "string \<Rightarrow> string" where
  "extract_method_name path =
     (let m = rsplit_next path in if m \<in> set known_methods then m else ''unknown'')"

definition grpc_code_to_label :: "string \<Rightarrow> string" where
  "grpc_code_to_label code =
     (if code = ''0'' then ''ok''
      else if code = ''1'' then ''cancelled''
      else if code = ''2'' then ''unknown''
      else if code = ''3'' then ''invalid_argument''
      else if code = ''4'' then ''deadline_exceeded''
      else if code = ''5'' then ''not_found''
      else if code = ''6'' then ''already_exists''
      else if code = ''7'' then ''permission_denied''
      else if code = ''8'' then ''resource_exhausted''
      else if code = ''9'' then ''failed_precondition''
      else if code = ''10'' then ''aborted''
      else if code = ''11'' then ''out_of_range''
      else if code = ''12'' then ''unimplemented''
      else if code = ''13'' then ''internal''
      else if code = ''14'' then ''unavailable''
      else if code = ''15'' then ''data_loss''
      else if code = ''16'' then ''unauthenticated''
      else ''unknown'')"

type_synonym headers = "(string \<times> string) list"

definition grpc_status_from_response :: "headers \<Rightarrow> string" where
  "grpc_status_from_response hs =
     (case map_of hs ''grpc-status'' of None \<Rightarrow> ''ok'' | Some v \<Rightarrow> grpc_code_to_label v)"

record 'd grpc_metrics =
  requests_total :: "string \<times> string \<Rightarrow> nat"
  request_durations :: "(string \<times> 'd) list"

text \<open>The call of the inner service, then the counter and the histogram.\<close>

definition grpc_call ::
    "('s \<Rightarrow> (headers, 'e) result \<times> 's) \<Rightarrow> string \<Rightarrow> 'd \<Rightarrow> 's \<times> 'd grpc_metrics
      \<Rightarrow> (headers, 'e) result \<times> 's \<times> 'd grpc_metrics" where
  "grpc_call inner path duration st =
     (case st of (s, m) \<Rightarrow>
        let meth = extract_method_name path in
        case inner s of (result, t) \<Rightarrow>
          let status = (case result of Ok response \<Rightarrow> grpc_status_from_response response | Err _ \<Rightarrow> ''error'') in
          (result, t,
           m\<lparr>requests_total := (requests_total m)((meth, status) := Suc (requests_total m (meth, status))),
             request_durations := request_durations m @ [(meth, duration)]\<rparr>))"

subsection \<open>Labels\<close>

text \<open>The last component of the path of each RPC.\<close>

fun rpc_name :: "request \<Rightarrow> string" where
  "rpc_name (CreateAccount r) = ''CreateAccount''"
| "rpc_name (GetAccount i) = ''GetAccount''"
| "rpc_name (GetBalance i) = ''GetBalance''"
| "rpc_name (Authorize r) = ''Authorize''"
| "rpc_name (Capture i) = ''Capture''"
| "rpc_name (Void i) = ''Void''"
| "rpc_name (GetEntries i) = ''GetEntries''"

lemma rsplit_next_append: "CHR ''/'' \<notin> set m \<Longrightarrow> rsplit_next (path @ ''/'' @ m) = m"
  by (auto simp: rsplit_next_def takeWhile_append)

lemma rpc_path_name: "extract_method_name (service @ ''/'' @ rpc_name req) = rpc_name req"
proof -
  have "CHR ''/'' \<notin> set (rpc_name req)" and "rpc_name req \<in> set known_methods"
    by (cases req; simp add: known_methods_def)+
  then show ?thesis unfolding extract_method_name_def by (simp add: rsplit_next_append [simplified] Let_def)
qed

definition method_labels :: "string list" where
  "method_labels = ''unknown'' # known_methods"

definition status_labels :: "string list" where
  "status_labels =
     [''ok'', ''cancelled'', ''unknown'', ''invalid_argument'', ''deadline_exceeded'', ''not_found'', ''already_exists'',
      ''permission_denied'', ''resource_exhausted'', ''failed_precondition'', ''aborted'', ''out_of_range'',
      ''unimplemented'', ''internal'', ''unavailable'', ''data_loss'', ''unauthenticated'', ''error'']"

lemma extract_method_label: "extract_method_name path \<in> set method_labels"
  by (simp add: extract_method_name_def method_labels_def Let_def)

lemma code_label: "grpc_code_to_label code \<in> set status_labels"
  by (simp add: grpc_code_to_label_def status_labels_def)

lemma response_label: "grpc_status_from_response hs \<in> set status_labels"
  using code_label by (auto simp: grpc_status_from_response_def status_labels_def split: option.split)

subsection \<open>Counting\<close>

definition grpc_labels :: "(string \<times> string) set" where
  "grpc_labels = set method_labels \<times> set status_labels"

definition grpc_total :: "'d grpc_metrics \<Rightarrow> nat" where
  "grpc_total m = sum (requests_total m) grpc_labels"

text \<open>A sequence of calls, each with its inner service, its path and its duration.\<close>

fun grpc_calls ::
    "(('s \<Rightarrow> (headers, 'e) result \<times> 's) \<times> string \<times> 'd) list \<Rightarrow> 's \<times> 'd grpc_metrics \<Rightarrow> 's \<times> 'd grpc_metrics" where
  "grpc_calls [] st = st"
| "grpc_calls ((inner, path, d) # cs) st = grpc_calls cs (snd (grpc_call inner path d st))"

lemma grpc_call_total:
  assumes "grpc_call inner path d (s, m) = (r, t, m')"
  shows "grpc_total m' = Suc (grpc_total m)" and "length (request_durations m') = Suc (length (request_durations m))"
    and "(r, t) = inner s"
proof -
  define k where "k = (extract_method_name path, case fst (inner s) of Ok hs \<Rightarrow> grpc_status_from_response hs | Err _ \<Rightarrow> ''error'')"
  have m': "requests_total m' = (requests_total m)(k := Suc (requests_total m k))"
    using assms by (auto simp: grpc_call_def k_def Let_def split: prod.splits)
  have fin: "finite grpc_labels" by (simp add: grpc_labels_def)
  have "k \<in> grpc_labels"
    using extract_method_label response_label
    by (auto simp: k_def grpc_labels_def status_labels_def split: result.split)
  then show "grpc_total m' = Suc (grpc_total m)"
    unfolding grpc_total_def m' by (simp add: sum.remove [OF fin])
  show "length (request_durations m') = Suc (length (request_durations m))" and "(r, t) = inner s"
    using assms by (auto simp: grpc_call_def Let_def split: prod.splits)
qed


subsection \<open>Statuses of the service\<close>

text \<open>
  The numbers by which gRPC transmits the status codes, and what the transport does with a
  status: a response without a body whose headers carry the number.
\<close>

definition documented_numbers :: "(Code \<Rightarrow> string) \<Rightarrow> bool" where
  "documented_numbers number \<longleftrightarrow>
     number Code_InvalidArgument = ''3'' \<and> number Code_NotFound = ''5'' \<and> number Code_AlreadyExists = ''6''
     \<and> number Code_FailedPrecondition = ''9'' \<and> number Code_Aborted = ''10'' \<and> number Code_Internal = ''13''"

definition trailers_only :: "(Code \<Rightarrow> string) \<Rightarrow> ((response, abort) result \<Rightarrow> (headers, 'e) result) \<Rightarrow> bool" where
  "trailers_only number transport \<longleftrightarrow>
     (\<forall>st. case transport (Err (Failed st)) of
        Ok hs \<Rightarrow> map_of hs ''grpc-status'' = Some (number (status_code st)) | Err _ \<Rightarrow> False)"

fun service_error_label :: "ServiceError \<Rightarrow> string" where
  "service_error_label (AccountNotFound _) = ''not_found''"
| "service_error_label (TransactionNotFound _) = ''not_found''"
| "service_error_label (InsufficientFunds _ _ _) = ''failed_precondition''"
| "service_error_label (InvalidTransactionState _ _ _) = ''failed_precondition''"
| "service_error_label (DuplicateTransaction _) = ''already_exists''"
| "service_error_label (ServiceError_UnbalancedTransaction _ _) = ''invalid_argument''"
| "service_error_label (InvalidArgument _) = ''invalid_argument''"
| "service_error_label (ServiceError_VersionConflict _ _) = ''aborted''"
| "service_error_label (Internal _) = ''internal''"

text \<open>The service behind the layer: the handler of the request, then the transport.\<close>

definition serve_request ::
    "((response, abort) result \<Rightarrow> (headers, 'e) result) \<Rightarrow> 'j env \<Rightarrow> request \<Rightarrow> 'j server \<Rightarrow> (headers, 'e) result \<times> 'j server" where
  "serve_request transport env req s = map_prod transport id (prun (dispatch env req) s)"

text \<open>
  C35. A request that fails with a service error is counted under the name of its RPC and the
  label of the error: with a transport that answers an error status with its gRPC number in
  the headers, the counter of exactly this pair of labels grows, by one.
\<close>

theorem service_errors_labelled:
  assumes "documented_numbers number" and "trailers_only number transport"
    and "prun (dispatch env req) s = (Err (service_error e), t)"
    and "grpc_call (serve_request transport env req) (service @ ''/'' @ rpc_name req) d (s, m) = (r, t', m')"
  shows "t' = t \<and> requests_total m' = (requests_total m)((rpc_name req, service_error_label e) :=
    Suc (requests_total m (rpc_name req, service_error_label e)))"
proof -
  obtain hs where hs: "transport (Err (service_error e)) = Ok hs"
    and st: "map_of hs ''grpc-status'' = Some (number (status_code (Status_from_ServiceError e)))"
    using assms(2) unfolding trailers_only_def service_error_def
    by (cases "transport (Err (Failed (Status_from_ServiceError e)))") (auto dest!: spec [of _ "Status_from_ServiceError e"])
  have "grpc_code_to_label (number (status_code (Status_from_ServiceError e))) = service_error_label e"
    using assms(1) by (cases e) (simp_all add: documented_numbers_def grpc_code_to_label_def)
  then have "grpc_status_from_response hs = service_error_label e" by (simp add: grpc_status_from_response_def st)
  moreover have "extract_method_name (service @ CHR ''/'' # rpc_name req) = rpc_name req" using rpc_path_name [of service req] by simp
  ultimately show ?thesis using assms(3,4) by (auto simp: grpc_call_def serve_request_def hs Let_def)
qed

fun demo_number :: "Code \<Rightarrow> string" where
  "demo_number Code_InvalidArgument = ''3''"
| "demo_number Code_NotFound = ''5''"
| "demo_number Code_AlreadyExists = ''6''"
| "demo_number Code_FailedPrecondition = ''9''"
| "demo_number Code_Aborted = ''10''"
| "demo_number Code_Internal = ''13''"

fun demo_transport :: "(response, abort) result \<Rightarrow> (headers, unit) result" where
  "demo_transport (Ok x) = Ok [(''content-type'', ''application/grpc'')]"
| "demo_transport (Err (Failed st)) = Ok [(''grpc-status'', demo_number (status_code st))]"
| "demo_transport (Err Panic) = Err ()"

definition demo_counted :: "unit grpc_metrics" where
  "demo_counted = snd (snd (grpc_call (serve_request demo_transport demo_env (Capture 99)) ''/fides.ledger.v1.LedgerService/Capture''
     () (demo_pending, \<lparr> requests_total = (\<lambda>_. 0), request_durations = [] \<rparr>)))"

theorem service_errors_labelled_witness: "requests_total demo_counted (''Capture'', ''not_found'') = 1"
proof -
  let ?m = "\<lparr> requests_total = (\<lambda>_. 0), request_durations = [] \<rparr> :: unit grpc_metrics"
  let ?path = "''/fides.ledger.v1.LedgerService'' @ ''/'' @ rpc_name (Capture 99)"
  obtain r t' m' where call: "grpc_call (serve_request demo_transport demo_env (Capture 99)) ?path () (demo_pending, ?m) = (r, t', m')"
    by (metis prod_cases3)
  have numbers: "documented_numbers demo_number" "trailers_only demo_number demo_transport"
    by (simp_all add: documented_numbers_def trailers_only_def)
  have "fst (prun (dispatch demo_env (Capture 99)) demo_pending) = Err (service_error (TransactionNotFound 99))" by code_simp
  then have "prun (dispatch demo_env (Capture 99)) demo_pending =
      (Err (service_error (TransactionNotFound 99)), snd (prun (dispatch demo_env (Capture 99)) demo_pending))"
    by (metis prod.collapse)
  from service_errors_labelled [OF numbers this call] have "requests_total m' (''Capture'', ''not_found'') = 1" by simp
  then show ?thesis using call by (simp add: demo_counted_def)
qed

end
