(* ===== verification/AppConfig.thy ===== *)
theory AppConfig
  imports Prelude
begin

section \<open>Configuration (\<open>config.rs\<close>)\<close>

text \<open>
  The configuration records, their validation, the order in which the sources are stacked,
  and the redaction of the database url in the log. The \<open>config\<close> crate, which reads the
  sources and decodes the result, is the parameter \<open>build\<close> of \<open>AppConfig_load\<close>.
\<close>

record ServerConfig =
  grpc_port :: u16
  http_port :: u16
  shutdown_timeout_secs :: u64

record DatabaseConfig =
  db_url :: string
  max_connections :: u32
  min_connections :: u32
  acquire_timeout_secs :: u64
  idle_timeout_secs :: u64

record LoggingConfig =
  log_level :: string
  log_format :: string

record ObservabilityConfig =
  integrity_check_interval_secs :: u64

record AppConfig =
  cfg_server :: ServerConfig
  cfg_database :: DatabaseConfig
  cfg_logging :: LoggingConfig
  cfg_observability :: ObservabilityConfig

datatype 'e ConfigError = Load 'e | Validation string

fun ConfigError_to_string :: "('e \<Rightarrow> string) \<Rightarrow> 'e ConfigError \<Rightarrow> string" where
  "ConfigError_to_string display (Load e) = ''configuration error: '' @ display e"
| "ConfigError_to_string display (Validation msg) = ''configuration error: '' @ msg"

definition show_u :: "'a::len word \<Rightarrow> string" where
  "show_u w = show_nat (unat w)"

definition AppConfig_validate :: "AppConfig \<Rightarrow> (unit, 'e ConfigError) result" where
  "AppConfig_validate c =
     (if db_url (cfg_database c) = [] then Err (Validation ''database.url is required'')
      else if grpc_port (cfg_server c) = http_port (cfg_server c) then
        Err (Validation (''grpc_port and http_port must differ, both set to '' @ show_u (grpc_port (cfg_server c))))
      else if max_connections (cfg_database c) = 0 then Err (Validation ''database.max_connections must be > 0'')
      else if max_connections (cfg_database c) < min_connections (cfg_database c) then
        Err (Validation (''database.min_connections ('' @ show_u (min_connections (cfg_database c))
          @ '') exceeds max_connections ('' @ show_u (max_connections (cfg_database c)) @ '')''))
      else if shutdown_timeout_secs (cfg_server c) = 0 then
        Err (Validation ''server.shutdown_timeout_secs must be > 0'')
      else if integrity_check_interval_secs (cfg_observability c) < 10 then
        Err (Validation (''observability.integrity_check_interval_secs must be >= 10, got ''
          @ show_u (integrity_check_interval_secs (cfg_observability c))))
      else Ok ())"

subsection \<open>Loading\<close>

datatype config_value = V_int int | V_string string

datatype config_source =
    File_required string
  | File_optional string
  | Environment string string bool

record config_builder =
  cb_defaults :: "(string \<times> config_value) list"
  cb_sources :: "config_source list"
  cb_overrides :: "(string \<times> config_value) list"

definition config_defaults :: "(string \<times> config_value) list" where
  "config_defaults =
     [(''server.grpc_port'', V_int 50051), (''server.http_port'', V_int 9090),
      (''server.shutdown_timeout_secs'', V_int 30), (''database.url'', V_string []),
      (''database.max_connections'', V_int 10), (''database.min_connections'', V_int 1),
      (''database.acquire_timeout_secs'', V_int 5), (''database.idle_timeout_secs'', V_int 600),
      (''logging.level'', V_string ''info''), (''logging.format'', V_string ''json''),
      (''observability.integrity_check_interval_secs'', V_int 60)]"

text \<open>The builder for a given \<open>--config\<close> argument and value of \<open>DATABASE_URL\<close>.\<close>

definition config_stack :: "string option \<Rightarrow> string option \<Rightarrow> config_builder" where
  "config_stack config_path database_url =
     \<lparr> cb_defaults = config_defaults,
       cb_sources =
         [case config_path of Some path \<Rightarrow> File_required path | None \<Rightarrow> File_optional ''config'',
          Environment ''FIDES'' ''__'' True],
       cb_overrides = (case database_url of Some url \<Rightarrow> [(''database.url'', V_string url)] | None \<Rightarrow> []) \<rparr>"

definition AppConfig_load ::
    "(config_builder \<Rightarrow> (AppConfig, 'e) result) \<Rightarrow> string option \<Rightarrow> string option \<Rightarrow> (AppConfig, 'e ConfigError) result" where
  "AppConfig_load build config_path database_url =
     and_then (map_err Load (build (config_stack config_path database_url))) (\<lambda>config.
     and_then (AppConfig_validate config) (\<lambda>_. Ok config))"

text \<open>What a running server may rely on.\<close>

definition config_ok :: "AppConfig \<Rightarrow> bool" where
  "config_ok c \<longleftrightarrow>
     db_url (cfg_database c) \<noteq> [] \<and> grpc_port (cfg_server c) \<noteq> http_port (cfg_server c)
     \<and> 0 < unat (max_connections (cfg_database c))
     \<and> unat (min_connections (cfg_database c)) \<le> unat (max_connections (cfg_database c))
     \<and> 0 < unat (shutdown_timeout_secs (cfg_server c))
     \<and> 10 \<le> unat (integrity_check_interval_secs (cfg_observability c))"

lemma validate_iff: "AppConfig_validate c = Ok () \<longleftrightarrow> config_ok c"
  by (auto simp: AppConfig_validate_def config_ok_def word_less_nat_alt word_le_nat_alt unat_gt_0)


subsection \<open>Redaction\<close>

definition redact_db_url :: "string \<Rightarrow> string" where
  "redact_db_url url =
     (case find_str ''://'' url of
        None \<Rightarrow> url
      | Some scheme_end \<Rightarrow>
          let after_scheme = scheme_end + 3; rest = drop after_scheme url in
          (case find_str ''@'' rest of
             None \<Rightarrow> url
           | Some at_pos \<Rightarrow>
               let credentials = take at_pos rest in
               (case find_str '':'' credentials of
                  None \<Rightarrow> url
                | Some colon_pos \<Rightarrow>
                    let user = take colon_pos credentials; after_at = drop at_pos rest in
                    take scheme_end url @ ''://'' @ user @ '':***'' @ after_at)))"

text \<open>The fields of the log record.\<close>

definition log_summary :: "AppConfig \<Rightarrow> (string \<times> string) list" where
  "log_summary c =
     [(''grpc_port'', show_u (grpc_port (cfg_server c))),
      (''http_port'', show_u (http_port (cfg_server c))),
      (''shutdown_timeout_secs'', show_u (shutdown_timeout_secs (cfg_server c))),
      (''database_url'', redact_db_url (db_url (cfg_database c))),
      (''max_connections'', show_u (max_connections (cfg_database c))),
      (''min_connections'', show_u (min_connections (cfg_database c))),
      (''log_level'', log_level (cfg_logging c)),
      (''log_format'', log_format (cfg_logging c)),
      (''integrity_check_interval_secs'', show_u (integrity_check_interval_secs (cfg_observability c)))]"

definition url_with :: "string \<Rightarrow> string \<Rightarrow> string \<Rightarrow> string \<Rightarrow> string" where
  "url_with scheme user password host = scheme @ ''://'' @ user @ '':'' @ password @ ''@'' @ host"

lemma redact_url_with:
  assumes "CHR '':'' \<notin> set scheme" and "CHR '':'' \<notin> set user" "CHR ''@'' \<notin> set user" and "CHR ''@'' \<notin> set password"
  shows "redact_db_url (url_with scheme user password host) = scheme @ ''://'' @ user @ '':***@'' @ host"
proof -
  let ?rest = "(user @ '':'' @ password) @ CHR ''@'' # host"
  have "find_str ''://'' (url_with scheme user password host) = Some (length scheme)"
    using find_str_fresh [OF assms(1), of "''//''" ?rest] by (simp add: url_with_def)
  moreover have "find_str ''@'' ?rest = Some (length (user @ '':'' @ password))"
    by (rule find_char_append) (use assms(3,4) in simp)
  moreover have "find_str '':'' (user @ CHR '':'' # password) = Some (length user)" by (rule find_char_append [OF assms(2)])
  moreover have "drop (length scheme + 3) (url_with scheme user password host) = ?rest"
    "take (length scheme) (url_with scheme user password host) = scheme" by (simp_all add: url_with_def)
  ultimately show ?thesis by (simp add: redact_db_url_def Let_def)
qed

text \<open>
  C38. The log does not depend on the database password: two configurations that differ only
  in a password without an at sign write the same log record.
\<close>

theorem log_hides_password:
  assumes "CHR '':'' \<notin> set scheme" and "CHR '':'' \<notin> set user" "CHR ''@'' \<notin> set user"
    and "CHR ''@'' \<notin> set p" "CHR ''@'' \<notin> set p'"
  shows "log_summary (c\<lparr>cfg_database := d\<lparr>db_url := url_with scheme user p host\<rparr>\<rparr>)
    = log_summary (c\<lparr>cfg_database := d\<lparr>db_url := url_with scheme user p' host\<rparr>\<rparr>)"
  using redact_url_with [OF assms(1-4)] redact_url_with [OF assms(1-3,5)] by (simp add: log_summary_def)

definition demo_config :: AppConfig where
  "demo_config =
     \<lparr> cfg_server = \<lparr> grpc_port = 50051, http_port = 9090, shutdown_timeout_secs = 30 \<rparr>,
       cfg_database = \<lparr> db_url = ''postgres://localhost/fides'', max_connections = 10, min_connections = 1,
         acquire_timeout_secs = 5, idle_timeout_secs = 600 \<rparr>,
       cfg_logging = \<lparr> log_level = ''info'', log_format = ''json'' \<rparr>,
       cfg_observability = \<lparr> integrity_check_interval_secs = 60 \<rparr> \<rparr>"

theorem log_hides_password_witness:
  "log_summary (demo_config\<lparr>cfg_database := (cfg_database demo_config)\<lparr>db_url := url_with ''postgres'' ''fides'' ''secret'' ''db/fides''\<rparr>\<rparr>)
   = log_summary (demo_config\<lparr>cfg_database := (cfg_database demo_config)\<lparr>db_url := url_with ''postgres'' ''fides'' ''other'' ''db/fides''\<rparr>\<rparr>)"
  by (rule log_hides_password) simp_all


end
