(* ===== verification/Lifecycle.thy ===== *)
theory Lifecycle
  imports Server AppConfig
begin

section \<open>Process life cycle (\<open>main.rs\<close>, \<open>server.rs\<close>, \<open>health.rs\<close>)\<close>

text \<open>
  From the command line to the end of the process: connecting, migrating, starting the
  server, the health endpoints, and the drain at shutdown. Each function returns its result
  and the effects it had, in order. What the database, the sockets and the server tasks do is
  a parameter: a \<open>world\<close> gives the outcome of each call, and the drain is given the times at
  which the two server tasks end.
\<close>

subsection \<open>Effects\<close>

datatype effect =
    DbConnected
  | DbChecked
  | MigrationsRun
  | RecorderInstalled
  | BalancesLoaded
  | CacheRehydrated nat
  | GaugeTaskSpawned
  | IntegrityTaskSpawned u64
  | HttpBound u16
  | GrpcBound u16
  | HttpSpawned
  | GrpcSpawned
  | SignalReceived
  | NotReady
  | ShutdownSent
  | ServersJoined
  | DrainTimedOut
  | PoolClosed

type_synonym ('a, 'e) proc = "('a, 'e) result \<times> effect list"

definition call :: "('a, 'e) result \<Rightarrow> effect \<Rightarrow> ('a, 'e) proc" where
  "call r eff = (r, case r of Ok x \<Rightarrow> [eff] | Err e \<Rightarrow> [])"

definition emit :: "effect \<Rightarrow> (unit, 'e) proc" where
  "emit eff = (Ok (), [eff])"

definition and_do :: "('a, 'e) proc \<Rightarrow> ('a \<Rightarrow> ('b, 'e) proc) \<Rightarrow> ('b, 'e) proc" where
  "and_do m k =
     (case m of
        (Ok x, es) \<Rightarrow> (case k x of (r, fs) \<Rightarrow> (r, es @ fs))
      | (Err e, es) \<Rightarrow> (Err e, es))"

record ('b, 'e) world =
  w_connect :: "DatabaseConfig \<Rightarrow> (unit, 'e) result"
  w_ping :: "(unit, 'e) result"
  w_migrate :: "(unit, 'e) result"
  w_load_balances :: "('b list, 'e) result"
  w_bind_http :: "u16 \<Rightarrow> (unit, 'e) result"
  w_bind_grpc :: "u16 \<Rightarrow> (unit, 'e) result"

subsection \<open>Health endpoints\<close>

datatype StatusCode = OK_200 | SERVICE_UNAVAILABLE_503

record HealthState =
  accepting :: bool

definition HealthState_new :: HealthState where
  "HealthState_new = \<lparr> accepting = True \<rparr>"

definition set_shutting_down :: "HealthState \<Rightarrow> HealthState" where
  "set_shutting_down h = h\<lparr>accepting := False\<rparr>"

definition health :: StatusCode where
  "health = OK_200"

text \<open>The argument is what the probe query returns; it is not sent while shutting down.\<close>

definition ready :: "HealthState \<Rightarrow> (unit, 'e) result \<Rightarrow> StatusCode" where
  "ready h probe =
     (if \<not> accepting h then SERVICE_UNAVAILABLE_503
      else case probe of Ok _ \<Rightarrow> OK_200 | Err e \<Rightarrow> SERVICE_UNAVAILABLE_503)"

definition health_router :: "HealthState \<Rightarrow> (unit, 'e) result \<Rightarrow> string \<Rightarrow> StatusCode option" where
  "health_router h probe path =
     (if path = ''/health'' then Some health else if path = ''/ready'' then Some (ready h probe) else None)"

subsection \<open>Start\<close>

definition connect_db :: "('b, 'e) world \<Rightarrow> AppConfig \<Rightarrow> (unit, 'e) proc" where
  "connect_db w config =
     and_do (call (w_connect w (cfg_database config)) DbConnected) (\<lambda>_.
     call (w_ping w) DbChecked)"

definition run_migrations :: "('b, 'e) world \<Rightarrow> (unit, 'e) proc" where
  "run_migrations w = call (w_migrate w) MigrationsRun"

definition serve :: "('b, 'e) world \<Rightarrow> AppConfig \<Rightarrow> (HealthState, 'e) proc" where
  "serve w config =
     and_do (emit RecorderInstalled) (\<lambda>_.
     and_do (call (w_load_balances w) BalancesLoaded) (\<lambda>balances.
     and_do (emit (CacheRehydrated (length balances))) (\<lambda>_.
     and_do (emit GaugeTaskSpawned) (\<lambda>_.
     and_do (emit (IntegrityTaskSpawned (integrity_check_interval_secs (cfg_observability config)))) (\<lambda>_.
     and_do (call (w_bind_http w (http_port (cfg_server config))) (HttpBound (http_port (cfg_server config)))) (\<lambda>_.
     and_do (call (w_bind_grpc w (grpc_port (cfg_server config))) (GrpcBound (grpc_port (cfg_server config)))) (\<lambda>_.
     and_do (emit HttpSpawned) (\<lambda>_.
     and_do (emit GrpcSpawned) (\<lambda>_.
     (Ok HealthState_new, []))))))))))"

text \<open>The gauge task: it polls at every tick until the shutdown.\<close>

fun gauge_task :: "(nat \<times> nat) option list \<Rightarrow> (row_lock list, 'j server, unit) prog" where
  "gauge_task [] = Done ()"
| "gauge_task (Some (pool_size, pool_idle) # events) =
     pbind (gauge_poll pool_size pool_idle) (\<lambda>_. gauge_task events)"
| "gauge_task (None # events) = Done ()"

subsection \<open>Shutdown\<close>

text \<open>
  When and how the task of a server ends after the shutdown was sent; \<open>None\<close> if it never
  does. The first is awaited before the second.
\<close>

datatype join_result = Joined | ServerFailed string | TaskPanicked string

record drained =
  dr_health :: HealthState
  dr_effects :: "effect list"
  dr_errors :: "string list"
  dr_elapsed :: nat

fun join_errors :: "string \<Rightarrow> join_result \<Rightarrow> string list" where
  "join_errors name Joined = []"
| "join_errors name (ServerFailed e) = [name @ '' server error'']"
| "join_errors name (TaskPanicked e) = [name @ '' server task panicked'']"

text \<open>Await the http task, then the grpc task: the errors logged by a given time.\<close>

definition await_servers ::
    "nat \<Rightarrow> (nat \<times> join_result) option \<Rightarrow> (nat \<times> join_result) option \<Rightarrow> nat option \<times> string list" where
  "await_servers timeout http grpc =
     (case http of
        None \<Rightarrow> (None, [])
      | Some (t, r) \<Rightarrow>
          if timeout < t then (None, [])
          else (case grpc of
                  None \<Rightarrow> (None, join_errors ''http'' r)
                | Some (u, q) \<Rightarrow>
                    if timeout < u then (None, join_errors ''http'' r)
                    else (Some (max t u), join_errors ''http'' r @ join_errors ''grpc'' q)))"

definition drain ::
    "nat \<Rightarrow> (nat \<times> join_result) option \<Rightarrow> (nat \<times> join_result) option \<Rightarrow> HealthState \<Rightarrow> drained" where
  "drain timeout http grpc h =
     (let h' = set_shutting_down h in
      case await_servers timeout http grpc of (joined, errs) \<Rightarrow>
        \<lparr> dr_health = h',
          dr_effects = [NotReady, ShutdownSent, if joined = None then DrainTimedOut else ServersJoined, PoolClosed],
          dr_errors = errs,
          dr_elapsed = (case joined of Some t \<Rightarrow> t | None \<Rightarrow> timeout) \<rparr>)"

definition ServerHandle_run ::
    "nat \<Rightarrow> (nat \<times> join_result) option \<Rightarrow> (nat \<times> join_result) option \<Rightarrow> HealthState \<Rightarrow> (unit, 'e) proc" where
  "ServerHandle_run timeout http grpc h = (Ok (), SignalReceived # dr_effects (drain timeout http grpc h))"

datatype Command = Migrate | Serve bool

definition run ::
    "('b, 'e) world \<Rightarrow> (nat \<times> join_result) option \<Rightarrow> (nat \<times> join_result) option \<Rightarrow> Command \<Rightarrow> AppConfig \<Rightarrow> (unit, 'e) proc" where
  "run w http grpc command config =
     and_do (connect_db w config) (\<lambda>_.
     case command of
       Migrate \<Rightarrow> and_do (run_migrations w) (\<lambda>_. emit PoolClosed)
     | Serve with_migrations \<Rightarrow>
         and_do (if with_migrations then run_migrations w else (Ok (), [])) (\<lambda>_.
         and_do (serve w config) (\<lambda>h.
         ServerHandle_run (unat (shutdown_timeout_secs (cfg_server config))) http grpc h)))"

subsection \<open>Order of the effects\<close>

fun stage :: "effect \<Rightarrow> nat" where
  "stage DbConnected = 0"
| "stage DbChecked = 1"
| "stage MigrationsRun = 2"
| "stage RecorderInstalled = 3"
| "stage BalancesLoaded = 4"
| "stage (CacheRehydrated n) = 5"
| "stage GaugeTaskSpawned = 6"
| "stage (IntegrityTaskSpawned i) = 7"
| "stage (HttpBound p) = 8"
| "stage (GrpcBound p) = 9"
| "stage HttpSpawned = 10"
| "stage GrpcSpawned = 11"
| "stage SignalReceived = 12"
| "stage NotReady = 13"
| "stage ShutdownSent = 14"
| "stage ServersJoined = 15"
| "stage DrainTimedOut = 15"
| "stage PoolClosed = 16"



definition demo_world :: "(unit, unit) world" where
  "demo_world =
     \<lparr> w_connect = (\<lambda>_. Ok ()), w_ping = Ok (), w_migrate = Ok (), w_load_balances = Ok [],
       w_bind_http = (\<lambda>_. Ok ()), w_bind_grpc = (\<lambda>_. Ok ()) \<rparr>"



subsection \<open>The process\<close>

text \<open>The exit code and the effects of the process.\<close>

definition fides_main ::
    "(config_builder \<Rightarrow> (AppConfig, 'c) result) \<Rightarrow> ('b, 'e) world \<Rightarrow> (nat \<times> join_result) option \<Rightarrow> (nat \<times> join_result) option
      \<Rightarrow> string option \<Rightarrow> string option \<Rightarrow> Command \<Rightarrow> nat \<times> effect list" where
  "fides_main build w http grpc config_path database_url command =
     (case AppConfig_load build config_path database_url of
        Err e \<Rightarrow> (1, [])
      | Ok config \<Rightarrow>
          (case run w http grpc command config of
             (Err e, es) \<Rightarrow> (1, es)
           | (Ok u, es) \<Rightarrow> (0, es)))"

text \<open>
  Nothing happens without a valid configuration: if the process had any effect, the
  configuration satisfies all constraints, and in particular its two ports differ.
\<close>

theorem effects_need_valid_config:
  assumes "snd (fides_main build w http grpc config_path database_url command) \<noteq> []"
  shows "\<exists>c. build (config_stack config_path database_url) = Ok c \<and> config_ok c
    \<and> snd (fides_main build w http grpc config_path database_url command) = snd (run w http grpc command c)"
proof (cases "AppConfig_load build config_path database_url")
  case (Ok c)
  then have "build (config_stack config_path database_url) = Ok c \<and> config_ok c"
    by (auto simp: AppConfig_load_def result_simps validate_iff)
  with Ok show ?thesis by (auto simp: fides_main_def split: prod.splits result.splits)
qed (use assms in \<open>simp add: fides_main_def\<close>)

theorem effects_need_valid_config_witness:
  "snd (fides_main (\<lambda>_. Ok demo_config) demo_world None None None (Some ''postgres://localhost/fides'') Migrate) \<noteq> [] \<and> config_ok demo_config"
proof
  show ne: "snd (fides_main (\<lambda>_. Ok demo_config) demo_world None None None (Some ''postgres://localhost/fides'') Migrate) \<noteq> []"
    by code_simp
  from effects_need_valid_config [OF ne] show "config_ok demo_config" by auto
qed

end
