(* ===== verification/LoadTool.thy ===== *)
theory LoadTool
  imports Example
begin

section \<open>The load tester (\<open>fides-load/src/main.rs\<close>)\<close>

text \<open>
  Set-up, one round of a worker, and the statistics. The gRPC client is a parameter: one
  function per RPC on the state of the other side. \<open>ledger_client\<close> is the client of the
  modelled server. The random choices, fresh keys and measured times of a round are its
  arguments.
\<close>

record Stats =
  st_captures :: u64
  st_voids :: u64
  st_balance_checks :: u64
  st_account_lookups :: u64
  st_entry_streams :: u64
  st_insufficient_funds :: u64
  st_idempotent_hits :: u64
  st_rejected :: u64
  st_errors :: u64

definition Stats_new :: Stats where
  "Stats_new =
     \<lparr> st_captures = 0, st_voids = 0, st_balance_checks = 0, st_account_lookups = 0, st_entry_streams = 0,
       st_insufficient_funds = 0, st_idempotent_hits = 0, st_rejected = 0, st_errors = 0 \<rparr>"

definition total_ops :: "Stats \<Rightarrow> u64" where
  "total_ops s =
     st_captures s + st_voids s + st_balance_checks s + st_account_lookups s + st_entry_streams s
     + st_insufficient_funds s + st_idempotent_hits s + st_rejected s + st_errors s"

text \<open>The status code of an error; \<open>None\<close> for any code the service does not use.\<close>

definition classify_error :: "Code option \<Rightarrow> Stats \<Rightarrow> Stats" where
  "classify_error e s =
     (if e \<in> {Some Code_FailedPrecondition, Some Code_Aborted, Some Code_AlreadyExists}
      then s\<lparr>st_rejected := st_rejected s + 1\<rparr> else s\<lparr>st_errors := st_errors s + 1\<rparr>)"

text \<open>
  The element at the given rank of a sorted list. The rank is computed in floating point;
  it is an argument here.
\<close>

definition percentile :: "'d::zero list \<Rightarrow> nat \<Rightarrow> 'd" where
  "percentile sorted_lats rank =
     (if sorted_lats = [] then 0 else sorted_lats ! min rank (length sorted_lats - 1))"

subsection \<open>Clients\<close>

record 's client =
  c_create_account :: "CreateAccountRequest \<Rightarrow> 's \<Rightarrow> (ProtoAccount, Code option) result \<times> 's"
  c_authorize :: "AuthorizeRequest \<Rightarrow> 's \<Rightarrow> (AuthorizeResponse, Code option) result \<times> 's"
  c_capture :: "i64 \<Rightarrow> 's \<Rightarrow> (ProtoTransaction, Code option) result \<times> 's"
  c_void :: "i64 \<Rightarrow> 's \<Rightarrow> (ProtoTransaction, Code option) result \<times> 's"
  c_get_balance :: "i64 \<Rightarrow> 's \<Rightarrow> (ProtoBalance, Code option) result \<times> 's"
  c_get_account :: "i64 \<Rightarrow> 's \<Rightarrow> (ProtoAccount, Code option) result \<times> 's"
  c_get_entries :: "i64 \<Rightarrow> 's \<Rightarrow> (ProtoEntry list, Code option) result \<times> 's"

definition withdrawal :: "string \<Rightarrow> i64 \<Rightarrow> i64 \<Rightarrow> i64 \<Rightarrow> AuthorizeRequest" where
  "withdrawal key asset equity amount =
     \<lparr> aur_idempotency_key = key,
       aur_legs =
         [\<lparr> pl_account_id = asset, pl_entry_type = 2, pl_amount = amount \<rparr>,
          \<lparr> pl_account_id = equity, pl_entry_type = 1, pl_amount = amount \<rparr>],
       aur_metadata = [] \<rparr>"

definition funding :: "string \<Rightarrow> i64 \<Rightarrow> i64 \<Rightarrow> i64 \<Rightarrow> AuthorizeRequest" where
  "funding key asset equity amount =
     \<lparr> aur_idempotency_key = key,
       aur_legs =
         [\<lparr> pl_account_id = asset, pl_entry_type = 1, pl_amount = amount \<rparr>,
          \<lparr> pl_account_id = equity, pl_entry_type = 2, pl_amount = amount \<rparr>],
       aur_metadata = [] \<rparr>"

subsection \<open>Set-up\<close>

definition usd_account :: "i32 \<Rightarrow> CreateAccountRequest" where
  "usd_account account_type = \<lparr> car_account_type = account_type, car_asset_code = ''USD'', car_asset_scale = 2 \<rparr>"

fun create_accounts :: "'s client \<Rightarrow> i32 \<Rightarrow> nat \<Rightarrow> 's \<Rightarrow> (i64 list, Code option) result \<times> 's" where
  "create_accounts c account_type 0 s = (Ok [], s)"
| "create_accounts c account_type (Suc n) s =
     (case c_create_account c (usd_account account_type) s of
        (Err e, t) \<Rightarrow> (Err e, t)
      | (Ok a, t) \<Rightarrow>
          (case create_accounts c account_type n t of
             (Err e, u) \<Rightarrow> (Err e, u)
           | (Ok ids, u) \<Rightarrow> (Ok (pa_id a # ids), u)))"

text \<open>Fund the i-th asset from the equity \<open>i mod n\<close>; \<open>keys\<close> draws the fresh keys.\<close>

fun fund_accounts ::
    "'s client \<Rightarrow> (nat \<Rightarrow> string) \<Rightarrow> i64 list \<Rightarrow> i64 list \<Rightarrow> nat \<Rightarrow> 's \<Rightarrow> (unit, Code option) result \<times> 's" where
  "fund_accounts c keys [] equities i s = (Ok (), s)"
| "fund_accounts c keys (asset # assets) equities i s =
     (case c_authorize c (funding (keys i) asset (equities ! (i mod length equities)) 1000000) s of
        (Err e, t) \<Rightarrow> (Err e, t)
      | (Ok resp, t) \<Rightarrow>
          (case c_capture c (pt_id (aus_transaction resp)) t of
             (Err e, u) \<Rightarrow> (Err e, u)
           | (Ok tx, u) \<Rightarrow> fund_accounts c keys assets equities (Suc i) u))"

record load_accounts =
  la_assets :: "i64 list"
  la_equities :: "i64 list"
  la_broke_asset :: i64
  la_broke_equity :: i64

text \<open>\<open>None\<close>: too few accounts, the process exits.\<close>

definition load_setup ::
    "'s client \<Rightarrow> nat \<Rightarrow> (nat \<Rightarrow> string) \<Rightarrow> 's \<Rightarrow> (load_accounts, Code option) result option \<times> 's" where
  "load_setup c accts keys s =
     (let half = accts div 2 in
      if half = 0 then (None, s)
      else case create_accounts c 1 half s of
        (Err e, t) \<Rightarrow> (Some (Err e), t)
      | (Ok assets, t) \<Rightarrow>
      (case create_accounts c 3 half t of
        (Err e, u) \<Rightarrow> (Some (Err e), u)
      | (Ok equities, u) \<Rightarrow>
      (case c_create_account c (usd_account 1) u of
        (Err e, v) \<Rightarrow> (Some (Err e), v)
      | (Ok broke_asset, v) \<Rightarrow>
      (case c_create_account c (usd_account 3) v of
        (Err e, x) \<Rightarrow> (Some (Err e), x)
      | (Ok broke_equity, x) \<Rightarrow>
      (case fund_accounts c keys assets equities 0 x of
        (Err e, y) \<Rightarrow> (Some (Err e), y)
      | (Ok _, y) \<Rightarrow>
          (Some (Ok \<lparr> la_assets = assets, la_equities = equities, la_broke_asset = pa_id broke_asset,
                      la_broke_equity = pa_id broke_equity \<rparr>), y))))))"

subsection \<open>A round of a worker\<close>

record 'd worker =
  wk_last_key :: "string option"
  wk_last_tx :: "i64 option"
  wk_stats :: Stats
  wk_latencies :: "'d list"

text \<open>What a round draws and measures.\<close>

record 'd draw =
  dw_roll :: u8
  dw_asset :: i64
  dw_equity :: i64
  dw_key :: string
  dw_elapsed :: 'd

definition with_stats :: "(Stats \<Rightarrow> Stats) \<Rightarrow> 'd worker \<Rightarrow> 'd worker" where
  "with_stats f w = w\<lparr>wk_stats := f (wk_stats w)\<rparr>"

definition round_capture :: "'s client \<Rightarrow> i64 \<Rightarrow> 'd draw \<Rightarrow> 'd worker \<Rightarrow> 's \<Rightarrow> 'd worker \<times> 's" where
  "round_capture c amount d w s =
     (case c_authorize c (withdrawal (dw_key d) (dw_asset d) (dw_equity d) amount) s of
        (Err e, t) \<Rightarrow> (with_stats (classify_error e) w, t)
      | (Ok resp, t) \<Rightarrow>
          let tx_id = pt_id (aus_transaction resp) in
          (case c_capture c tx_id t of
             (Err e, u) \<Rightarrow> (with_stats (classify_error e) w, u)
           | (Ok tx, u) \<Rightarrow>
               ((with_stats (\<lambda>st. st\<lparr>st_captures := st_captures st + 1\<rparr>) w)
                  \<lparr>wk_latencies := wk_latencies w @ [dw_elapsed d], wk_last_key := Some (dw_key d), wk_last_tx := Some tx_id\<rparr>, u)))"

definition round_void :: "'s client \<Rightarrow> i64 \<Rightarrow> 'd draw \<Rightarrow> 'd worker \<Rightarrow> 's \<Rightarrow> 'd worker \<times> 's" where
  "round_void c amount d w s =
     (case c_authorize c (withdrawal (dw_key d) (dw_asset d) (dw_equity d) amount) s of
        (Err e, t) \<Rightarrow> (with_stats (classify_error e) w, t)
      | (Ok resp, t) \<Rightarrow>
          let tx_id = pt_id (aus_transaction resp) in
          (case c_void c tx_id t of
             (Err e, u) \<Rightarrow> (with_stats (classify_error e) w, u)
           | (Ok tx, u) \<Rightarrow>
               ((with_stats (\<lambda>st. st\<lparr>st_voids := st_voids st + 1\<rparr>) w)\<lparr>wk_latencies := wk_latencies w @ [dw_elapsed d]\<rparr>, u)))"

definition round_idempotent :: "'s client \<Rightarrow> i64 \<Rightarrow> 'd draw \<Rightarrow> 'd worker \<Rightarrow> 's \<Rightarrow> 'd worker \<times> 's" where
  "round_idempotent c amount d w s =
     (let hit = with_stats (\<lambda>st. st\<lparr>st_idempotent_hits := st_idempotent_hits st + 1\<rparr>);
          (w1, t) = (case wk_last_key w of
              None \<Rightarrow> (w, s)
            | Some key \<Rightarrow> (hit w, snd (c_authorize c (withdrawal key (dw_asset d) (dw_equity d) amount) s))) in
      case wk_last_tx w of
        None \<Rightarrow> (w1, t)
      | Some tx_id \<Rightarrow> (hit w1, snd (c_capture c tx_id t)))"

definition worker_round ::
    "'s client \<Rightarrow> i64 \<Rightarrow> i64 \<Rightarrow> i64 \<Rightarrow> 'd draw \<Rightarrow> 'd worker \<Rightarrow> 's \<Rightarrow> 'd worker \<times> 's" where
  "worker_round c amount broke_asset broke_equity d w s =
     (if dw_roll d < 40 then round_capture c amount d w s
      else if dw_roll d < 55 then round_void c amount d w s
      else if dw_roll d < 65 then
        (with_stats (\<lambda>st. st\<lparr>st_insufficient_funds := st_insufficient_funds st + 1\<rparr>) w,
         snd (c_authorize c (withdrawal (dw_key d) broke_asset broke_equity 999999) s))
      else if dw_roll d < 70 then round_idempotent c amount d w s
      else if dw_roll d < 85 then
        (with_stats (\<lambda>st. st\<lparr>st_balance_checks := st_balance_checks st + 1\<rparr>) w, snd (c_get_balance c (dw_asset d) s))
      else if dw_roll d < 95 then
        (with_stats (\<lambda>st. st\<lparr>st_account_lookups := st_account_lookups st + 1\<rparr>) w, snd (c_get_account c (dw_asset d) s))
      else
        (with_stats (\<lambda>st. st\<lparr>st_entry_streams := st_entry_streams st + 1\<rparr>) w, snd (c_get_entries c (dw_asset d) s)))"

fun worker_rounds ::
    "'s client \<Rightarrow> i64 \<Rightarrow> i64 \<Rightarrow> i64 \<Rightarrow> 'd draw list \<Rightarrow> 'd worker \<Rightarrow> 's \<Rightarrow> 'd worker \<times> 's" where
  "worker_rounds c amount broke_asset broke_equity [] w s = (w, s)"
| "worker_rounds c amount broke_asset broke_equity (d # ds) w s =
     (case worker_round c amount broke_asset broke_equity d w s of
        (w', t) \<Rightarrow> worker_rounds c amount broke_asset broke_equity ds w' t)"

subsection \<open>The report\<close>

record 'd load_report =
  rp_total :: u64
  rp_p50 :: 'd
  rp_p95 :: 'd
  rp_p99 :: 'd
  rp_max :: 'd

text \<open>\<open>rank\<close> is the index computed for a percentage and a length.\<close>

definition load_report :: "(nat \<Rightarrow> nat \<Rightarrow> nat) \<Rightarrow> Stats \<Rightarrow> 'd::{linorder, zero} list \<Rightarrow> 'd load_report" where
  "load_report rank st latencies =
     (let lats = sort latencies in
      \<lparr> rp_total = total_ops st,
        rp_p50 = percentile lats (rank 50 (length lats)), rp_p95 = percentile lats (rank 95 (length lats)),
        rp_p99 = percentile lats (rank 99 (length lats)), rp_max = (if lats = [] then 0 else last lats) \<rparr>)"

text \<open>The percentiles are latencies that occurred, in order, and none is above the maximum.\<close>

lemma percentile_mono:
  assumes "sorted xs" and "i \<le> j"
  shows "percentile xs i \<le> percentile xs j"
proof (cases "xs = []")
  case False
  then have "min j (length xs - 1) < length xs" by (simp add: min_less_iff_disj)
  with assms False show ?thesis by (auto simp: percentile_def intro!: sorted_nth_mono)
qed (simp add: percentile_def)

lemma percentile_last: "sorted xs \<Longrightarrow> xs \<noteq> [] \<Longrightarrow> percentile xs i \<le> last xs"
  unfolding percentile_def by (simp add: last_conv_nth sorted_nth_mono min_def)

lemma load_report_ordered:
  assumes "\<And>p q n. p \<le> q \<Longrightarrow> rank p n \<le> rank q n"
  shows "rp_p50 (load_report rank st ls) \<le> rp_p95 (load_report rank st ls)"
    and "rp_p95 (load_report rank st ls) \<le> rp_p99 (load_report rank st ls)"
    and "rp_p99 (load_report rank st ls) \<le> rp_max (load_report rank st ls)"
  unfolding load_report_def Let_def
  by (auto intro!: percentile_mono assms percentile_last) (simp add: percentile_def)

subsection \<open>Counting\<close>

text \<open>How many operations a round counts.\<close>

definition round_ops :: "'d draw \<Rightarrow> 'd worker \<Rightarrow> nat" where
  "round_ops d w =
     (if 65 \<le> dw_roll d \<and> dw_roll d < 70
      then (if wk_last_key w = None then 0 else 1) + (if wk_last_tx w = None then 0 else 1) else 1)"

lemma total_ops_classify: "total_ops (classify_error e s) = total_ops s + 1"
  by (simp add: classify_error_def total_ops_def)

lemma worker_round_ops:
  assumes "worker_round c amount ba be d w s = (w', t)"
  shows "total_ops (wk_stats w') = total_ops (wk_stats w) + of_nat (round_ops d w)"
proof -
  consider "dw_roll d < 40" | "\<not> dw_roll d < 40" "dw_roll d < 55" | "\<not> dw_roll d < 40" "\<not> dw_roll d < 55" "dw_roll d < 65"
    | "65 \<le> dw_roll d" "dw_roll d < 70" | "\<not> dw_roll d < 40" "\<not> dw_roll d < 55" "\<not> dw_roll d < 65" "\<not> dw_roll d < 70"
    by (metis not_less)
  then show ?thesis
  proof cases
    case 4
    then have "\<not> dw_roll d < 40" "\<not> dw_roll d < 55" "\<not> dw_roll d < 65" by unat_arith+
    with 4 assms show ?thesis
      by (auto simp: worker_round_def round_idempotent_def round_ops_def with_stats_def total_ops_def Let_def
          split: option.splits prod.splits)
  next
    case 1
    then have "round_ops d w = 1" unfolding round_ops_def by unat_arith
    with 1 assms show ?thesis
      by (auto simp: worker_round_def round_capture_def with_stats_def total_ops_classify Let_def
          split: result.splits prod.splits) (simp add: total_ops_def)
  next
    case 2
    then have "round_ops d w = 1" unfolding round_ops_def by unat_arith
    with 2 assms show ?thesis
      by (auto simp: worker_round_def round_void_def with_stats_def total_ops_classify Let_def
          split: result.splits prod.splits) (simp add: total_ops_def)
  qed (use assms in \<open>auto simp: worker_round_def round_ops_def with_stats_def total_ops_def split: if_splits\<close>)
qed

text \<open>
  The reported number of operations is exact: every round of a worker adds one operation
  to exactly one counter, whatever the server answers, except a retry round, which adds one
  for each retry it makes: none before the first captured transfer, two afterwards.
\<close>

theorem rounds_counted:
  assumes "wk_last_key w = None \<longleftrightarrow> wk_last_tx w = None" and "worker_round c amount ba be d w s = (w', t)"
  shows "(wk_last_key w' = None \<longleftrightarrow> wk_last_tx w' = None)
    \<and> total_ops (wk_stats w') = total_ops (wk_stats w)
        + (if 65 \<le> dw_roll d \<and> dw_roll d < 70 then if wk_last_key w = None then 0 else 2 else 1)"
proof
  show "wk_last_key w' = None \<longleftrightarrow> wk_last_tx w' = None"
    using assms
    by (auto simp: worker_round_def round_capture_def round_void_def round_idempotent_def with_stats_def Let_def
        split: if_splits result.splits prod.splits option.splits)
  show "total_ops (wk_stats w') = total_ops (wk_stats w)
        + (if 65 \<le> dw_roll d \<and> dw_roll d < 70 then if wk_last_key w = None then 0 else 2 else 1)"
    using worker_round_ops [OF assms(2)] assms(1) by (auto simp: round_ops_def)
qed

subsection \<open>The load test against the ledger\<close>

text \<open>
  A client whose calls keep a property of the state of the other side: then so do the set-up
  and the rounds of the workers.
\<close>

locale sound_client =
  fixes c :: "'s client" and ok :: "'s \<Rightarrow> bool"
  assumes create_ok: "ok s \<Longrightarrow> ok (snd (c_create_account c r1 s))"
    and authorize_ok: "ok s \<Longrightarrow> ok (snd (c_authorize c r2 s))"
    and capture_ok: "ok s \<Longrightarrow> ok (snd (c_capture c i s))"
    and void_ok: "ok s \<Longrightarrow> ok (snd (c_void c i s))"
    and reads_ok: "ok s \<Longrightarrow> ok (snd (c_get_balance c i s))" "ok s \<Longrightarrow> ok (snd (c_get_account c i s))"
      "ok s \<Longrightarrow> ok (snd (c_get_entries c i s))"
begin

lemma ok_then:
  assumes "ok (snd m)" and "\<And>x t. ok t \<Longrightarrow> ok (snd (k x t))" and "\<And>e t. ok t \<Longrightarrow> ok (snd (h e t))"
  shows "ok (snd (case m of (Ok x, t) \<Rightarrow> k x t | (Err e, t) \<Rightarrow> h e t))"
  using assms by (cases m) (auto split: result.split)

lemma create_accounts_ok: "ok s \<Longrightarrow> ok (snd (create_accounts c ty n s))"
proof (induction n arbitrary: s)
  case (Suc n)
  show ?case unfolding create_accounts.simps
    by (rule ok_then [OF create_ok [OF Suc.prems]], rule ok_then [OF Suc.IH]) simp_all
qed simp

lemma fund_accounts_ok: "ok s \<Longrightarrow> ok (snd (fund_accounts c keys assets equities i s))"
proof (induction assets arbitrary: i s)
  case (Cons asset assets)
  show ?case unfolding fund_accounts.simps
    by (rule ok_then [OF authorize_ok [OF Cons.prems]], rule ok_then [OF capture_ok]) (simp_all add: Cons.IH)
qed simp

lemma setup_ok: "ok s \<Longrightarrow> ok (snd (load_setup c n keys s))"
  unfolding load_setup_def Let_def
  by (cases "n div 2 = 0", simp, simp only: if_False,
      (rule ok_then create_accounts_ok create_ok fund_accounts_ok, assumption?)+) simp_all

lemma round_ok: "ok s \<Longrightarrow> ok (snd (worker_round c amount ba be d w s))"
proof -
  assume s: "ok s"
  have "ok (snd (round_capture c amount d w s))" "ok (snd (round_void c amount d w s))"
    unfolding round_capture_def round_void_def Let_def
    by (rule ok_then [OF authorize_ok [OF s]], rule ok_then [OF capture_ok] ok_then [OF void_ok], simp_all)+
  moreover have "ok (snd (round_idempotent c amount d w s))"
    using s by (cases "wk_last_key w"; cases "wk_last_tx w") (simp_all add: round_idempotent_def Let_def authorize_ok capture_ok)
  ultimately show ?thesis using s by (simp add: worker_round_def authorize_ok reads_ok)
qed

lemma rounds_ok: "ok s \<Longrightarrow> ok (snd (worker_rounds c amount ba be ds w s))"
proof (induction ds arbitrary: w s)
  case (Cons d ds)
  obtain w' t where round: "worker_round c amount ba be d w s = (w', t)" by force
  then have "ok t" using round_ok [OF Cons.prems] by (metis snd_conv)
  with Cons.IH round show ?case by simp
qed simp

end

fun code_of :: "abort \<Rightarrow> Code option" where
  "code_of (Failed st) = Some (status_code st)"
| "code_of Panic = None"

text \<open>The client of the modelled server, each call with the faults \<open>fs\<close>.\<close>

definition ledger_call :: "fault list \<Rightarrow> ('j, 'a) rpc \<Rightarrow> 'j server \<Rightarrow> ('a, Code option) result \<times> 'j server" where
  "ledger_call fs m s = map_prod (map_err code_of) id (prun m (s\<lparr>srv_faults := fs\<rparr>))"

definition ledger_client :: "'j env \<Rightarrow> fault list \<Rightarrow> 'j server client" where
  "ledger_client env fs =
     \<lparr> c_create_account = \<lambda>r. ledger_call fs (rpc_create_account env r),
       c_authorize = \<lambda>r. ledger_call fs (rpc_authorize env r),
       c_capture = \<lambda>i. ledger_call fs (rpc_capture env i),
       c_void = \<lambda>i. ledger_call fs (rpc_void env i),
       c_get_balance = \<lambda>i. ledger_call fs (rpc_get_balance env i),
       c_get_account = \<lambda>i. ledger_call fs (rpc_get_account env i),
       c_get_entries = \<lambda>i. ledger_call fs (rpc_get_entries env i) \<rparr>"

definition served :: "bool \<Rightarrow> 'j server \<Rightarrow> 'j server \<Rightarrow> bool" where
  "served L s0 s \<longleftrightarrow> (serves L)\<^sup>*\<^sup>* s0 s"

lemma snd_respond: "snd (prun (respond f m) s) = snd (prun m s)"
  by (simp add: respond_def prun_await split: prod.split result.split)

lemma served_answer:
  assumes "served L s0 s" and "faults_ok L fs"
  shows "served L s0 (snd (prun (dispatch env req) (s\<lparr>srv_faults := fs\<rparr>)))"
  using assms(1) serves.answer [OF assms(2) surjective_pairing, where env = env and req = req and s = s]
  unfolding served_def by (rule rtranclp.rtrancl_into_rtrancl)

text \<open>With faults that depend on nothing but the call, or none.\<close>

lemma ledger_client_sound:
  assumes "faults_ok L fs"
  shows "sound_client (ledger_client env fs) (served L s0)"
proof
  note step = served_answer [OF _ assms, where ?s0.0 = s0 and env = env]
  fix s :: "'a server" assume s: "served L s0 s"
  show "served L s0 (snd (c_create_account (ledger_client env fs) r s))" for r
    using step [OF s, where req = "CreateAccount r"] by (simp add: ledger_client_def ledger_call_def snd_respond)
  show "served L s0 (snd (c_authorize (ledger_client env fs) r s))" for r
    using step [OF s, where req = "Authorize r"] by (simp add: ledger_client_def ledger_call_def snd_respond)
  show "served L s0 (snd (c_capture (ledger_client env fs) i s))" for i
    using step [OF s, where req = "Capture i"] by (simp add: ledger_client_def ledger_call_def snd_respond)
  show "served L s0 (snd (c_void (ledger_client env fs) i s))" for i
    using step [OF s, where req = "Void i"] by (simp add: ledger_client_def ledger_call_def snd_respond)
  show "served L s0 (snd (c_get_balance (ledger_client env fs) i s))" for i
    using step [OF s, where req = "GetBalance i"] by (simp add: ledger_client_def ledger_call_def snd_respond)
  show "served L s0 (snd (c_get_account (ledger_client env fs) i s))" for i
    using step [OF s, where req = "GetAccount i"] by (simp add: ledger_client_def ledger_call_def snd_respond)
  show "served L s0 (snd (c_get_entries (ledger_client env fs) i s))" for i
    using step [OF s, where req = "GetEntries i"] by (simp add: ledger_client_def ledger_call_def snd_respond)
qed

interpretation healthy: sound_client "ledger_client env []" "served False s0" for env s0
  by (rule ledger_client_sound) (simp add: faults_ok_def)


definition demo_draw :: "u8 \<Rightarrow> string \<Rightarrow> unit draw" where
  "demo_draw roll key = \<lparr> dw_roll = roll, dw_asset = 1, dw_equity = 2, dw_key = key, dw_elapsed = () \<rparr>"

definition demo_worker :: "unit worker" where
  "demo_worker = \<lparr> wk_last_key = None, wk_last_tx = None, wk_stats = Stats_new, wk_latencies = [] \<rparr>"


theorem rounds_counted_witness:
  "total_ops (wk_stats (fst (worker_round (ledger_client demo_env []) 100 3 4 (demo_draw 10 ''a'') demo_worker demo_posted))) = 1"
proof -
  have "wk_last_key demo_worker = None \<longleftrightarrow> wk_last_tx demo_worker = None" by (simp add: demo_worker_def)
  from rounds_counted [OF this surjective_pairing, where d = "demo_draw 10 ''a''" and c = "ledger_client demo_env []"
      and amount = 100 and ba = 3 and be = 4 and s = demo_posted]
  have "total_ops (wk_stats (fst (worker_round (ledger_client demo_env []) 100 3 4 (demo_draw 10 ''a'') demo_worker demo_posted)))
      = total_ops (wk_stats demo_worker) + (if 65 \<le> dw_roll (demo_draw 10 ''a'') \<and> dw_roll (demo_draw 10 ''a'') < 70
          then if wk_last_key demo_worker = None then 0 else 2 else 1)" by blast
  also have "\<dots> = 1" by code_simp
  finally show ?thesis .
qed

end
