(* ===== verification/Spec2Isabelle.thy ===== *)
theory Spec2Isabelle
  imports Requests Races Isolation Funds GrpcMetrics Lifecycle LoadTool
begin

text \<open>
  Fides is a double-entry ledger behind a gRPC service. A client opens accounts, authorises
  transfers (two or more legs whose debits and credits are equal), and later captures or voids
  each of them. The server (\<open>fides-server\<close>) keeps accounts, transactions and entries in
  PostgreSQL, with the posted and pending balance of every account materialised in its row, and
  mirrors these balances in memory. A background task recomputes the books, a metrics layer
  counts the calls, and \<open>fides-load\<close> is a client that generates load.

  The development models the server from the domain types to the process, executable
  throughout, and proves that whatever sequence of requests it answers, and whatever calls of
  the database fail, the books stay in order. A name in parentheses below is a file under
  \<open>src/fides-server/src\<close> unless it says otherwise.

  \<^bold>\<open>Vocabulary.\<close> Prelude has the integers of Rust at their width (\<open>i64\<close>, \<open>i32\<close>, \<open>i16\<close>, \<open>u8\<close>
  are words, read by \<open>sint\<close>) with the checked and saturating operations, \<open>Result\<close> and its
  combinators, the texts of integers, and the contract of an encoding (locale \<open>codec\<close>). Prog has
  the programs: an \<open>async fn\<close> is a tree of atomic pieces, each labelled with the row locks it
  takes, \<open>prun\<close> runs it alone, and \<open>triple\<close> is the Hoare logic for it.

  \<^bold>\<open>Domain.\<close> Money, Account, Transaction and Entry (\<open>domain/\<close>) are the validated data with their
  constructors; the three identifier types satisfy one contract (locale \<open>positive_id\<close>). Validation
  (\<open>domain/validation.rs\<close>) has the check of the legs, the balance of an account from its entries
  and the signed delta of an entry; the machine arithmetic is proved equal to sums over the
  mathematical integers, or to report the overflow.

  \<^bold>\<open>State.\<close> Schema (\<open>src/migrations\<close>) has the tables as lists of rows with the column types and
  constraints; Cache (\<open>storage/cache.rs\<close>) the balance cache with its laws (locale
  \<open>balance_cache\<close>). Session has the record \<open>server\<close>: the committed tables, the sequences, the open
  transaction (the function its writes compose to), the cache, the metrics, and the list of
  faults. Each call of the driver consumes a fault: none, a failure before the effect, or a
  reply that is lost after the effect. StorageError (\<open>storage/mod.rs\<close>), Postgres
  (\<open>storage/postgres.rs\<close>), ServiceError (\<open>service/mod.rs\<close>) and Ledger (\<open>service/ledger.rs\<close>)
  follow the files function by function: every method of the storage with its SQL statement, and
  the seven handlers with their loops, guards and early returns. Integrity
  (\<open>observability/integrity.rs\<close>) has the three checks. Server has start-up, the dispatch of a
  request and the transition system: \<open>reachable L s\<close> says that \<open>s\<close> comes from an empty migrated
  database by requests, checks, polls and restarts, each under faults of its own, lost replies
  among them if \<open>L\<close>.

  \<^bold>\<open>Correctness of one request.\<close> Invariant states the ledger invariant \<open>tables_inv\<close>: identifiers
  and keys are unique, rows are valid, references exist, every transaction balances, and every
  balance column is the sum of its entries. Effects proves that the three effects (a booked
  transfer, a capture, a void) keep it, and that the loops which accumulate the balance updates
  compute these effects. StorageSpec has a triple per storage method, Handlers and Rpc for the
  bodies of the handlers, Settle for capture and void together (locale \<open>settlement\<close>, interpreted
  on both), Service for whole handlers; all of them for every list of faults. History says how
  tables may change over time. Guarantees states the contract of a handler (locale
  \<open>rpc_handler\<close>: no panic, invariant kept, history only extended, cache coherent, an error
  changes nothing) and interprets it on all seven.

  \<^bold>\<open>Answers.\<close> Progress and Accept determine the answer of each handler on a database without
  faults: \<open>ends P m F\<close> says that \<open>m\<close> returns and gives the verdict \<open>F\<close>, so these are total
  correctness statements. Requests relates two requests that follow each other. Journal is the
  abstract specification, a list of accounts and of transfers with phases and no materialised
  balance; \<open>journal_of\<close> is the abstraction, and every answered request is a step of it.
  Books and IntegritySpec prove the trial balance, that the checks report exactly the
  violations, and that they raise no false alarm.

  \<^bold>\<open>Concurrency.\<close> Tasks runs requests as sessions whose atomic pieces interleave, with row locks
  that block. Every schedule ends; a session that runs alone does what \<open>prun\<close> says. Locking
  gives the locks a linear order and proves of every handler, by a weakest precondition over its
  program (\<open>orderly\<close>), that it takes them in that order, has at most one transaction, and writes
  only rows and keys it has locked. Isolation concludes that a process that dies at any point of
  a request leaves all of its effect or none, that no update of a locked account is lost, and
  that no schedule stores two transactions under one key. Races concludes that no set of requests
  can deadlock, and has the schedule in which the books break: two captures of one transaction,
  because its state is read without a lock. The invariants of the first groups are therefore
  stated for requests answered one after the other. Funds has runs, evaluated from reachable states, that pass the checks of funds, scale and
  asset although the documents suggest otherwise.

  \<^bold>\<open>Process.\<close> AppConfig (\<open>config.rs\<close>) has the records, defaults, sources, validation and
  redaction; Lifecycle (\<open>server.rs\<close>, \<open>health.rs\<close>, \<open>main.rs\<close>) the order of the effects from the
  command to the drain, and the probes; GrpcMetrics (\<open>observability/grpc_metrics.rs\<close>) the labels
  and counters of the calls; LoadTool (\<open>src/fides-load/src/main.rs\<close>) the set-up, rounds and
  statistics over a client, with the contract of a client (locale \<open>sound_client\<close>) that the
  server of this development satisfies. Example has the states the witnesses are evaluated on,
  and that they are reachable.

  \<^bold>\<open>Bounds.\<close> There is no fuel: programs are well-founded, loops are structural recursions, and
  schedules end by the well-founded order of the remaining programs. Machine arithmetic is at
  its width; columns have the limits of the migration (16 and 64 characters, 32-bit versions).
  Where an answer depends on room in a column or sequence, the property names it as a hypothesis
  (\<open>can_authorize\<close>, \<open>can_settle\<close>), and its witness shows a state where it holds.

  \<^bold>\<open>Parameters.\<close> Code outside the repository is an argument: the record \<open>env\<close> (the clock, the JSON
  library, the display of driver errors), the builder of the \<open>config\<close> library, the \<open>world\<close> of
  outcomes of sockets and connections, the inner service and headers of the metrics layer, the
  client of the load tool. PostgreSQL is modelled at \<open>READ COMMITTED\<close> as far as the statements of
  \<open>storage/postgres.rs\<close> use it.

  \<^bold>\<open>Not modelled.\<close> The exporter and the help texts of \<open>observability/metrics.rs\<close>, the generated
  code of \<open>fides-proto\<close>, command-line parsing and the set-up of the log are library calls. The
  histograms of durations, the throughput and the printed tables of the load tool are floating
  point and text of measured times. Exhaustion of the connection pool shows only as a fault of
  the call. For concurrent requests there is no invariant on the balances here, as the schedule in
  Races refutes it; termination, freedom from deadlock, isolation and unique keys are what is
  proved of them.

  The structure follows published developments: contracts as locales as in the library's
  Data_Structures, transactions and invariants over system calls as in Unix, triples with a
  postcondition for errors as in AutoCorres2, the simulation of an abstract machine as in
  Abortable_Linearizable_Modules and VeriComp, interleaved pools of threads with locks as in
  JinjaThreads and Hoare_Parallel.
\<close>

section \<open>Properties of the whole server\<close>

lemma run_is_ok:
  assumes "is_ok (fst (prun m s))"
  obtains x t where "prun m s = (Ok x, t)"
  using assms that by (metis is_ok.elims(2) prod.collapse)

lemma run_not_ok:
  assumes "\<not> is_ok (fst (prun m s))"
  obtains e t where "prun m s = (Err e, t)"
  using assms that by (metis is_ok.elims(3) prod.collapse)

text \<open>
  C1. In every state the server reaches, from an empty migrated database, by any sequence of
  requests, integrity checks, polls and restarts, with any failures of the database, lost
  replies included, the ledger invariant holds: identifiers and idempotency keys are unique,
  every row satisfies its constraints, every entry belongs to an account and to a
  transaction in the same state, the debits and credits of every transaction are equal, and
  the materialised balances of every account are the signed sums of its posted and pending
  entries.
\<close>

theorem reachable_books: "reachable L s \<Longrightarrow> ledger_inv s"
  using reachable_ok by (auto simp: server_ok_def)

theorem reachable_books_witness: "ledger_inv demo_withdrawing"
  by (rule reachable_books [OF demo_reachable(4)])

text \<open>
  C2. Trial balance: in every reachable state, under any faults, the posted balances of the
  debit-normal accounts add up to those of the credit-normal accounts, and so do the pending
  ones.
\<close>

theorem reachable_trial_balance:
  assumes "reachable L s"
  shows "side_total NB_Debit ar_posted_balance (srv_db s) = side_total NB_Credit ar_posted_balance (srv_db s)
    \<and> side_total NB_Debit ar_pending_balance (srv_db s) = side_total NB_Credit ar_pending_balance (srv_db s)"
proof -
  have "tables_inv (srv_db s) (srv_seqs s)" using reachable_ok [OF assms] by (simp add: server_ok_def ledger_inv_def)
  then show ?thesis using trial_balance_posted trial_balance_pending by blast
qed

theorem reachable_trial_balance_witness:
  "side_total NB_Debit ar_posted_balance (srv_db demo_withdrawing) = side_total NB_Credit ar_posted_balance (srv_db demo_withdrawing)
    \<and> side_total NB_Debit ar_pending_balance (srv_db demo_withdrawing) = side_total NB_Credit ar_pending_balance (srv_db demo_withdrawing)"
  by (rule reachable_trial_balance [OF demo_reachable(4)])

text \<open>
  C3. Refinement: every request that is answered successfully in a reachable state is a step
  of the journal. Accounts are opened, balanced transfers are booked once per idempotency
  key, pending transfers are closed once, and every response carries what the journal
  determines, the balances included.
\<close>

theorem answers_refine_journal:
  assumes "reachable False s" and "prun (dispatch env req) (s\<lparr>srv_faults := fs\<rparr>) = (Ok resp, t)"
  shows "journal_step req resp (journal_of (srv_db s)) (journal_of (srv_db t))"
proof -
  have "ledger_inv (s\<lparr>srv_faults := fs\<rparr>)" "cache_coherent (s\<lparr>srv_faults := fs\<rparr>)"
    using reachable_ok [OF assms(1)] by (simp_all add: server_ok_def)
  from dispatch_refines [OF this assms(2)] show ?thesis by simp
qed

theorem answers_refine_journal_witness:
  "\<exists>resp t. prun (dispatch demo_env (Capture 1)) (demo_pending\<lparr>srv_faults := []\<rparr>) = (Ok resp, t)
     \<and> journal_step (Capture 1) resp (journal_of (srv_db demo_pending)) (journal_of (srv_db t))"
proof -
  have "is_ok (fst (prun (dispatch demo_env (Capture 1)) (demo_pending\<lparr>srv_faults := []\<rparr>)))" by code_simp
  then obtain resp t where run: "prun (dispatch demo_env (Capture 1)) (demo_pending\<lparr>srv_faults := []\<rparr>) = (Ok resp, t)"
    by (rule run_is_ok)
  with answers_refine_journal [OF demo_reachable(2) run] show ?thesis by blast
qed

text \<open>
  C4. Balances tell the truth: in a state reached without lost replies, the balance query of
  every account succeeds and reports the sum of its posted entries, the sum of its pending
  entries, both signed by its normal side, and their difference as available.
\<close>

theorem reachable_balances_exact:
  assumes "reachable False s" and "a \<in> set (tbl_accounts (srv_db s))"
  shows "\<exists>b. prun (rpc_get_balance env (ar_id a)) s = (Ok b, s) \<and> balance_of_entries (tbl_entries (srv_db s)) a b"
  using get_balance_exact [OF _ _ assms(2)] reachable_ok [OF assms(1)] by (simp add: server_ok_def)

theorem reachable_balances_exact_witness:
  "\<exists>b. prun (rpc_get_balance demo_env (ar_id (demo_account 1 1 3 500 (- 200)))) demo_withdrawing = (Ok b, demo_withdrawing)
     \<and> balance_of_entries (tbl_entries (srv_db demo_withdrawing)) (demo_account 1 1 3 500 (- 200)) b"
proof (rule reachable_balances_exact [OF demo_reachable(4)])
  show "demo_account 1 1 3 500 (- 200) \<in> set (tbl_accounts (srv_db demo_withdrawing))" by code_simp
qed

text \<open>
  C16. No request panics, in any reachable state and under any faults of the database.
\<close>

theorem requests_never_panic:
  assumes "reachable L s"
  shows "fst (prun (dispatch env req) (s\<lparr>srv_faults := fs\<rparr>)) \<noteq> Err Panic"
  using dispatching.no_panic [of "s\<lparr>srv_faults := fs\<rparr>" env req] reachable_ok [OF assms] by (simp add: server_ok_def)

theorem requests_never_panic_witness:
  "fst (prun (dispatch demo_env (Capture (- 5))) (demo_started\<lparr>srv_faults := [Fault (Sqlx_other ''pool timed out'')]\<rparr>)) \<noteq> Err Panic"
  by (rule requests_never_panic [OF demo_started_reachable])

text \<open>
  C5. Errors are atomic: a request that reports an error has changed neither the tables nor
  the cache, as long as no reply of the database was lost.
\<close>

theorem errors_change_nothing:
  assumes "reachable L s" and "faults_ok False fs" and "prun (dispatch env req) (s\<lparr>srv_faults := fs\<rparr>) = (Err e, t)"
  shows "srv_db t = srv_db s \<and> srv_cache t = srv_cache s"
proof -
  have "\<not> lossy (s\<lparr>srv_faults := fs\<rparr>)" using faults_ok_lossy [OF assms(2)] by blast
  with dispatching.error_changes_nothing [OF _ this assms(3)] reachable_ok [OF assms(1)] show ?thesis
    by (simp add: server_ok_def)
qed

theorem errors_change_nothing_witness:
  "\<exists>e t. prun (dispatch demo_env (Capture 1)) (demo_pending\<lparr>srv_faults := [NoFault, NoFault, NoFault, Fault (Sqlx_other ''io'')]\<rparr>) = (Err e, t)
     \<and> srv_db t = srv_db demo_pending \<and> srv_cache t = srv_cache demo_pending"
proof -
  let ?fs = "[NoFault, NoFault, NoFault, Fault (Sqlx_other ''io'')]"
  have "\<not> is_ok (fst (prun (dispatch demo_env (Capture 1)) (demo_pending\<lparr>srv_faults := ?fs\<rparr>)))" by code_simp
  then obtain e t where run: "prun (dispatch demo_env (Capture 1)) (demo_pending\<lparr>srv_faults := ?fs\<rparr>) = (Err e, t)"
    by (rule run_not_ok)
  have "faults_ok False ?fs" by (simp add: faults_ok_def)
  from errors_change_nothing [OF demo_reachable(2) this run] run show ?thesis by blast
qed

text \<open>
  C6. History is append-only: along any run, under any faults, accounts, transactions and
  entries are only added, an account keeps its type, code, scale and creation time, and a
  transaction or entry changes only from pending to posted or voided, once.
\<close>

theorem history_is_append_only:
  assumes "reachable L s" and "(serves L)\<^sup>*\<^sup>* s t"
  shows "evolves (srv_db s) (srv_db t)"
  using serves_history [OF assms(2,1)] by blast

theorem history_is_append_only_witness:
  "evolves (srv_db demo_pending) (srv_db (snd (prun (dispatch demo_env (Capture 1)) (demo_pending\<lparr>srv_faults := []\<rparr>))))"
  by (rule history_is_append_only [OF demo_reachable(2)],
      rule r_into_rtranclp, rule serves.answer [OF _ surjective_pairing]) (simp add: faults_ok_def)

text \<open>
  C7. Authorising is decided completely: on a healthy database, a request gets the error of
  its first invalid part, or, if its key is known, the transaction of that key; a new
  transfer fails with the first missing account in the order of the identifiers, then with
  the first leg whose account is short of funds, and is accepted otherwise. The hypothesis
  is that the columns can hold the new rows.
\<close>

theorem authorize_decides:
  assumes "reachable False s" and "can_authorize (srv_db s) (srv_seqs s) req (env_now env)"
  shows "authorize_verdict env (srv_db s) (srv_cache s) req (fst (prun (rpc_authorize env req) (s\<lparr>srv_faults := []\<rparr>)))"
proof -
  have "tables_inv (srv_db s) (srv_seqs s)" "mirrors (srv_cache s) (tbl_accounts (srv_db s))"
    using reachable_ok [OF assms(1)] by (simp_all add: server_ok_def ledger_inv_def cache_coherent_def)
  then show ?thesis by (rule ends_healthy [OF ends_rpc_authorize]) (rule assms(2))
qed

theorem authorize_decides_witness:
  "authorize_verdict demo_env (srv_db demo_posted) (srv_cache demo_posted) (demo_transfer ''rent'' False 700)
     (fst (prun (rpc_authorize demo_env (demo_transfer ''rent'' False 700)) (demo_posted\<lparr>srv_faults := []\<rparr>)))"
proof (rule authorize_decides [OF demo_reachable(3)])
  show "can_authorize (srv_db demo_posted) (srv_seqs demo_posted) (demo_transfer ''rent'' False 700) (env_now demo_env)"
    by code_simp
qed

text \<open>
  C8. Capture is decided completely: on a healthy database it fails if there is no such
  transaction or it is voided, and succeeds if it is pending or already posted. The
  hypothesis is that the new balances and versions fit their columns.
\<close>

theorem capture_decides:
  assumes "reachable L s" and "0 < sint i" and "can_settle (srv_db s) i (Some (env_now env)) 1 (- 1)"
  shows "capture_verdict (srv_db s) i (fst (prun (rpc_capture env i) (s\<lparr>srv_faults := []\<rparr>)))"
proof -
  have "tables_inv (srv_db s) (srv_seqs s)" using reachable_ok [OF assms(1)] by (simp add: server_ok_def ledger_inv_def)
  from ends_rpc_capture [OF this assms(2,3)] show ?thesis by (rule ends_healthy)
qed

theorem capture_decides_witness:
  "capture_verdict (srv_db demo_withdrawing) 2 (fst (prun (rpc_capture demo_env 2) (demo_withdrawing\<lparr>srv_faults := []\<rparr>)))"
proof (rule capture_decides [OF demo_reachable(4)])
  show "0 < sint (2 :: i64)" by simp
  show "can_settle (srv_db demo_withdrawing) 2 (Some (env_now demo_env)) 1 (- 1)" by code_simp
qed

text \<open>
  C9. Void is decided completely: on a healthy database it fails if there is no such
  transaction or it is posted, and succeeds if it is pending or already voided. The
  hypothesis is that the new balances and versions fit their columns.
\<close>

theorem void_decides:
  assumes "reachable L s" and "0 < sint i" and "can_settle (srv_db s) i None 0 (- 1)"
  shows "void_verdict (srv_db s) i (fst (prun (rpc_void env i) (s\<lparr>srv_faults := []\<rparr>)))"
proof -
  have "tables_inv (srv_db s) (srv_seqs s)" using reachable_ok [OF assms(1)] by (simp add: server_ok_def ledger_inv_def)
  from ends_rpc_void [OF this assms(2,3)] show ?thesis by (rule ends_healthy)
qed

theorem void_decides_witness:
  "void_verdict (srv_db demo_withdrawing) 2 (fst (prun (rpc_void demo_env 2) (demo_withdrawing\<lparr>srv_faults := []\<rparr>)))"
proof (rule void_decides [OF demo_reachable(4)])
  show "0 < sint (2 :: i64)" by simp
  show "can_settle (srv_db demo_withdrawing) 2 None 0 (- 1)" by code_simp
qed

text \<open>
  C10. Authorising is idempotent: once a request was accepted, the same request succeeds
  again at any later time, returns the same transaction with the same entries, and changes
  nothing. The key must fit its column, which would otherwise store it without its trailing
  spaces.
\<close>

theorem authorize_idempotent:
  assumes "reachable False s" and "faults_ok False fs" and "length (aur_idempotency_key req) \<le> 64"
    and run: "prun (rpc_authorize env req) (s\<lparr>srv_faults := fs\<rparr>) = (Ok r, t)"
  shows "\<exists>r' v. prun (rpc_authorize (env\<lparr>env_now := now\<rparr>) req) (t\<lparr>srv_faults := []\<rparr>) = (Ok r', v)
    \<and> srv_db v = srv_db t \<and> srv_cache v = srv_cache t
    \<and> pt_id (aus_transaction r') = pt_id (aus_transaction r)
    \<and> map proto_item (aus_entries r') = map proto_item (aus_entries r)"
proof -
  have "\<not> lossy (s\<lparr>srv_faults := fs\<rparr>)" using faults_ok_lossy [OF assms(2)] by blast
  moreover have "ledger_inv (s\<lparr>srv_faults := fs\<rparr>)" "cache_coherent (s\<lparr>srv_faults := fs\<rparr>)"
    using reachable_ok [OF assms(1)] by (simp_all add: server_ok_def)
  ultimately show ?thesis
    using authorize_again [OF _ _ _ assms(3) run, of "t\<lparr>srv_faults := []\<rparr>" now] by simp
qed

theorem authorize_idempotent_witness:
  "\<exists>r t r' v. prun (rpc_authorize demo_env (demo_transfer ''deposit'' True 500)) (demo_opened\<lparr>srv_faults := []\<rparr>) = (Ok r, t)
    \<and> prun (rpc_authorize (demo_env\<lparr>env_now := 2000\<rparr>) (demo_transfer ''deposit'' True 500)) (t\<lparr>srv_faults := []\<rparr>) = (Ok r', v)
    \<and> srv_db v = srv_db t \<and> pt_id (aus_transaction r') = pt_id (aus_transaction r)"
proof -
  let ?req = "demo_transfer ''deposit'' True 500"
  have "is_ok (fst (prun (rpc_authorize demo_env ?req) (demo_opened\<lparr>srv_faults := []\<rparr>)))" by code_simp
  then obtain r t where run: "prun (rpc_authorize demo_env ?req) (demo_opened\<lparr>srv_faults := []\<rparr>) = (Ok r, t)"
    by (rule run_is_ok)
  have "faults_ok False []" and "length (aur_idempotency_key ?req) \<le> 64" by (simp_all add: faults_ok_def demo_transfer_def)
  from authorize_idempotent [OF demo_reachable(1) this run, of 2000] run show ?thesis by blast
qed



text \<open>
  C21. A restart repairs the cache: whatever happened before, lost replies included, a
  successful start leaves the tables alone and a cache that agrees with them on every
  account.
\<close>

theorem restart_restores_cache:
  assumes "reachable L s" and "prun serve_start (s\<lparr>srv_faults := fs\<rparr>) = (Ok (), t)"
  shows "srv_db t = srv_db s \<and> cache_coherent t"
proof -
  have "distinct (map ar_id (tbl_accounts (srv_db (s\<lparr>srv_faults := fs\<rparr>))))"
    using reachable_ok [OF assms(1)] by (auto simp: server_ok_def ledger_inv_def intro: distinct_account_ids)
  from serve_start_Ok [OF assms(2) this] show ?thesis by simp
qed

theorem restart_restores_cache_witness:
  "\<exists>t. prun serve_start (demo_pending\<lparr>srv_faults := []\<rparr>) = (Ok (), t) \<and> srv_db t = srv_db demo_pending \<and> cache_coherent t"
  using restart_restores_cache [OF demo_reachable(2) serve_start_state] serve_start_state by blast



text \<open>
  C22. The integrity checks detect exactly what they should, on arbitrary, also corrupted
  tables and caches: on a healthy database the first gauge is 1 if and only if debits and
  credits of the entries that are not voided agree, the second counts the accounts whose
  balance columns differ from their entries, and the third is 0 if and only if the cache
  agrees with the accounts. The hypotheses are that the rows satisfy the constraints of
  their columns and that the sums fit the result type of the queries.
\<close>

theorem integrity_detects_exactly:
  assumes "rows_valid (tbl_entries (srv_db s))" and "distinct (map ar_id (tbl_accounts (srv_db s)))"
    and "cache_wf (srv_cache s)" and "totals_fit (srv_db s)" and "account_totals_fit (srv_db s)"
  defines "t \<equiv> \<lambda>now. snd (prun (run_all_checks now) (s\<lparr>srv_faults := []\<rparr>))"
  shows "gauge (t now) ''fides_integrity_global_balanced'' = Some (if global_balanced (srv_db s) then 1 else 0)
    \<and> gauge (t now) ''fides_integrity_account_mismatches'' = Some (int (inexact_accounts (srv_db s)))
    \<and> (gauge (t now) ''fides_integrity_cache_mismatches'' = Some 0 \<longleftrightarrow> cache_coherent s)
    \<and> srv_db (t now) = srv_db s"
proof -
  have "t now = set_gauge ''fides_integrity_last_check_timestamp'' now
      (set_gauge ''fides_integrity_cache_mismatches'' (int (cache_mismatches (srv_cache s) (tbl_accounts (srv_db s))))
       (set_gauge ''fides_integrity_account_mismatches'' (int (inexact_accounts (srv_db s)))
        (set_gauge ''fides_integrity_global_balanced'' (if global_balanced (srv_db s) then 1 else 0) (s\<lparr>srv_faults := []\<rparr>))))"
    unfolding t_def using run_all_checks_clean [of "s\<lparr>srv_faults := []\<rparr>" now] assms(1,4,5) by simp
  moreover have "cache_coherent s \<longleftrightarrow> cache_mismatches (srv_cache s) (tbl_accounts (srv_db s)) = 0"
    unfolding cache_coherent_def cache_mismatches_exact [OF assms(3)] by (rule mirrors_defects [OF assms(3,2)])
  ultimately show ?thesis by simp
qed

definition demo_corrupt :: "unit server" where
  "demo_corrupt = demo_posted\<lparr>srv_db := (srv_db demo_posted)\<lparr>tbl_accounts :=
     [demo_account 1 1 2 501 0, demo_account 2 2 2 500 0]\<rparr>\<rparr>"

theorem integrity_detects_exactly_witness:
  "gauge (snd (prun (run_all_checks 5) (demo_corrupt\<lparr>srv_faults := []\<rparr>))) ''fides_integrity_account_mismatches'' = Some 1
    \<and> gauge (snd (prun (run_all_checks 5) (demo_corrupt\<lparr>srv_faults := []\<rparr>))) ''fides_integrity_global_balanced'' = Some 1"
proof -
  have "rows_valid (tbl_entries (srv_db demo_corrupt))" "distinct (map ar_id (tbl_accounts (srv_db demo_corrupt)))"
    "cache_wf (srv_cache demo_corrupt)" "totals_fit (srv_db demo_corrupt)" "account_totals_fit (srv_db demo_corrupt)"
    by code_simp+
  note integrity_detects_exactly [OF this, of 5]
  moreover have "inexact_accounts (srv_db demo_corrupt) = 1" "global_balanced (srv_db demo_corrupt)" by code_simp+
  ultimately show ?thesis by simp
qed

end
